theory Spec2Isabelle
  imports Main "HOL-Library.AList"
begin

section \<open>BigInt arithmetic of the host language\<close>

text \<open>
  The source computes on JavaScript BigInts: unbounded integers whose division \<open>/\<close>
  truncates towards zero and whose remainder \<open>%\<close> takes the sign of the dividend.
  Both throw a RangeError on a zero divisor; the callers below write that branch out.
\<close>

definition bigint_div :: "int \<Rightarrow> int \<Rightarrow> int" where
  "bigint_div a b = sgn a * sgn b * (\<bar>a\<bar> div \<bar>b\<bar>)"

definition bigint_rem :: "int \<Rightarrow> int \<Rightarrow> int" where
  "bigint_rem a b = sgn a * (\<bar>a\<bar> mod \<bar>b\<bar>)"

text \<open>Exceptions that abort a call (as opposed to the flag objects an operation returns).\<close>

datatype thrown = RangeError | TypeError

section \<open>The class Exact\<close>

record Exact =
  num :: int
  den :: int
  root :: int

text \<open>\<open>new Exact(N)\<close>\<close>

definition newExact :: "int \<Rightarrow> Exact" where
  "newExact N = \<lparr>num = N, den = 1, root = 1\<rparr>"

definition Exact_copy :: "Exact \<Rightarrow> Exact" where
  "Exact_copy this = \<lparr>num = num this, den = den this, root = root this\<rparr>"

definition Exact_Abs :: "int \<Rightarrow> int" where
  "Exact_Abs X = (if X < 0 then - X else X)"

text \<open>The \<open>while (true)\<close> loop of \<open>Exact.gcd\<close>, after the initial swap.\<close>

function gcd_loop :: "int \<Rightarrow> int \<Rightarrow> int" where
  "gcd_loop X Y =
     (if Y = 0 then X
      else let X1 = bigint_rem X Y in
        if X1 = 0 then Y
        else gcd_loop X1 (bigint_rem Y X1))"
  by pat_completeness auto

termination
proof (relation "measure (\<lambda>(X, Y). nat \<bar>Y\<bar>)")
  show "wf (measure (\<lambda>(X, Y). nat \<bar>Y\<bar>))" by simp
next
  fix X Y X1 :: int
  assume "Y \<noteq> 0" and x1: "X1 = bigint_rem X Y" and "X1 \<noteq> 0"
  have less: "\<bar>bigint_rem a b\<bar> < \<bar>b\<bar>" if b: "b \<noteq> 0" for a b :: int
  proof -
    from b have nonneg: "0 \<le> \<bar>a\<bar> mod \<bar>b\<bar>"
      by simp
    then have "\<bar>bigint_rem a b\<bar> = \<bar>sgn a\<bar> * (\<bar>a\<bar> mod \<bar>b\<bar>)"
      by (simp add: bigint_rem_def abs_mult)
    also have "\<dots> \<le> \<bar>a\<bar> mod \<bar>b\<bar>"
      using nonneg by (cases "a = 0") (simp_all add: abs_sgn_eq)
    also have "\<dots> < \<bar>b\<bar>"
      using b by simp
    finally show ?thesis .
  qed
  from \<open>Y \<noteq> 0\<close> \<open>X1 \<noteq> 0\<close> have "\<bar>bigint_rem Y X1\<bar> < \<bar>X1\<bar>" and "\<bar>X1\<bar> < \<bar>Y\<bar>"
    using less x1 by auto
  then show "((X1, bigint_rem Y X1), (X, Y)) \<in> measure (\<lambda>(X, Y). nat \<bar>Y\<bar>)"
    by simp
qed

declare gcd_loop.simps [simp del]

definition Exact_gcd :: "int \<Rightarrow> int \<Rightarrow> int" where
  "Exact_gcd X Y = (if Y > X then gcd_loop Y X else gcd_loop X Y)"

definition Exact_inverse :: "Exact \<Rightarrow> Exact" where
  "Exact_inverse this =
     (let Factor = (if num this < 0 then - 1 else 1) in
      \<lparr>num = Factor * den this, den = Exact_Abs (num this), root = root this\<rparr>)"

text \<open>
  \<open>plus\<close> and \<open>minus\<close> divide by the GCD without a guard, so a zero GCD throws.
\<close>

definition Exact_plus :: "Exact \<Rightarrow> Exact \<Rightarrow> thrown + Exact" where
  "Exact_plus this that =
     (let Num = num this * den that + den this * num that;
          Den = den this * den that;
          theGCD = Exact_gcd (Exact_Abs Num) Den
      in if theGCD = 0 then Inl RangeError
         else Inr \<lparr>num = bigint_div Num theGCD, den = bigint_div Den theGCD, root = 1\<rparr>)"

definition Exact_minus :: "Exact \<Rightarrow> Exact \<Rightarrow> thrown + Exact" where
  "Exact_minus this that =
     (let Num = num this * den that - den this * num that;
          Den = den this * den that;
          theGCD = Exact_gcd (Exact_Abs Num) Den
      in if theGCD = 0 then Inl RangeError
         else Inr \<lparr>num = bigint_div Num theGCD, den = bigint_div Den theGCD, root = 1\<rparr>)"

definition Exact_times :: "Exact \<Rightarrow> Exact \<Rightarrow> Exact" where
  "Exact_times this that =
     (let Num = num this * num that;
          Den = den this * den that;
          theGCD = Exact_gcd (Exact_Abs Num) Den
      in if theGCD = 0 then newExact 0
         else \<lparr>num = bigint_div Num theGCD, den = bigint_div Den theGCD, root = 1\<rparr>)"

text \<open>
  What an operation hands back to the enumeration: an Exact, or one of the flag objects
  \<open>{ error: true }\<close> and \<open>{ overflow: true }\<close>.
\<close>

datatype verify = Val Exact | ErrorFlag | OverflowFlag

definition Exact_over :: "Exact \<Rightarrow> Exact \<Rightarrow> thrown + verify" where
  "Exact_over this that =
     (if num that = 0 then Inr ErrorFlag
      else
        let Num = num this * den that;
            Den = den this * num that;
            AbsDen = Exact_Abs Den;
            theGCD = Exact_gcd (Exact_Abs Num) AbsDen;
            Factor = (if Den < 0 then - 1 else 1)
        in if theGCD = 0 then Inl RangeError
           else Inr (Val \<lparr>num = bigint_div (Factor * Num) theGCD,
                           den = bigint_div AbsDen theGCD, root = 1\<rparr>))"

text \<open>\<open>BigIntLog10\<close>: the number of truncating divisions by ten until the magnitude is at most ten.\<close>

function BigIntLog10 :: "int \<Rightarrow> nat" where
  "BigIntLog10 bigInt =
     (if Exact_Abs bigInt > 10 then Suc (BigIntLog10 (bigint_div bigInt 10)) else 0)"
  by pat_completeness auto

termination
proof (relation "measure (\<lambda>b. nat \<bar>b\<bar>)")
  show "wf (measure (\<lambda>b. nat \<bar>b\<bar>))" by simp
next
  fix bigInt :: int
  assume "10 < Exact_Abs bigInt"
  then have big: "10 < \<bar>bigInt\<bar>" by (simp add: Exact_Abs_def split: if_splits)
  then have "bigInt \<noteq> 0" by auto
  then have "\<bar>bigint_div bigInt 10\<bar> = \<bar>bigInt\<bar> div 10"
    by (simp add: bigint_div_def abs_mult abs_sgn_eq)
  also have "\<dots> < \<bar>bigInt\<bar>" using big by simp
  finally show "(bigint_div bigInt 10, bigInt) \<in> measure (\<lambda>b. nat \<bar>b\<bar>)" by simp
qed

declare BigIntLog10.simps [simp del]

text \<open>
  The \<open>for\<close> loop of \<open>toThe\<close>; \<open>None\<close> is the early \<open>return { overflow: true }\<close>.
\<close>

function toThe_loop :: "Exact \<Rightarrow> int \<Rightarrow> int \<Rightarrow> Exact \<Rightarrow> Exact option" where
  "toThe_loop This i NumAbs Res =
     (if i < NumAbs then
        let Res1 = Exact_times Res This in
          if \<bar>int (BigIntLog10 (num Res1)) - int (BigIntLog10 (den Res1))\<bar> > 20 then None
          else toThe_loop This (i + 1) NumAbs Res1
      else Some Res)"
  by pat_completeness auto

termination
  by (relation "measure (\<lambda>(This, i, NumAbs, Res). nat (NumAbs - i))") auto

declare toThe_loop.simps [simp del]

definition Exact_toThe :: "Exact \<Rightarrow> Exact \<Rightarrow> thrown + verify" where
  "Exact_toThe this that =
     (if root that \<noteq> 1 then Inr ErrorFlag
      else
        let Root = den that;
            This = (if num that < 0 then Exact_inverse this else Exact_copy this);
            NumAbs = Exact_Abs (num that)
        in if NumAbs > 100 then Inr OverflowFlag
           else case toThe_loop This 1 NumAbs (Exact_copy This) of
               None \<Rightarrow> Inr OverflowFlag
             | Some Res \<Rightarrow>
                 let theGCD = Exact_gcd (Exact_Abs (num Res)) (den Res) in
                   if theGCD = 0 then Inl RangeError
                   else Inr (Val \<lparr>num = bigint_div (num Res) theGCD,
                                   den = bigint_div (den Res) theGCD, root = Root\<rparr>))"

text \<open>
  The getter \<open>display\<close>: the flag object \<open>{ float: true }\<close> or the decimal string.
\<close>

datatype display = FloatFlag | Str string

text \<open>\<open>Digit.indexOf(Mod).toString()\<close> for the array of the ten digits.\<close>

definition Digit_indexOf_toString :: "int \<Rightarrow> string" where
  "Digit_indexOf_toString Mod =
     (if Mod = 0 then ''0'' else if Mod = 1 then ''1'' else if Mod = 2 then ''2''
      else if Mod = 3 then ''3'' else if Mod = 4 then ''4'' else if Mod = 5 then ''5''
      else if Mod = 6 then ''6'' else if Mod = 7 then ''7'' else if Mod = 8 then ''8''
      else if Mod = 9 then ''9'' else ''-1'')"

function display_loop :: "int \<Rightarrow> string \<Rightarrow> string" where
  "display_loop theInt returnString =
     (if theInt > 0 then
        display_loop (bigint_div theInt 10) (Digit_indexOf_toString (bigint_rem theInt 10) @ returnString)
      else returnString)"
  by pat_completeness auto

termination
proof (relation "measure (\<lambda>(theInt, s). nat theInt)")
  show "wf (measure (\<lambda>(theInt, s). nat theInt))" by simp
next
  fix theInt :: int and returnString :: string
  assume pos: "0 < theInt"
  then have "bigint_div theInt 10 = theInt div 10"
    by (simp add: bigint_div_def)
  moreover have "theInt div 10 < theInt" using pos by simp
  ultimately show "((bigint_div theInt 10, Digit_indexOf_toString (bigint_rem theInt 10) @ returnString),
      (theInt, returnString)) \<in> measure (\<lambda>(theInt, s). nat theInt)"
    using pos by simp
qed

declare display_loop.simps [simp del]

definition Exact_display :: "Exact \<Rightarrow> display" where
  "Exact_display this =
     (if den this \<noteq> 1 \<or> root this \<noteq> 1 then FloatFlag
      else if num this = 0 then Str ''0''
      else
        let sign = (if num this < 0 then ''-'' else '''');
            theInt = (if num this < 0 then Exact_Abs (num this) else num this)
        in Str (sign @ display_loop theInt ''''))"

section \<open>Atoms and expressions over Exact\<close>

datatype operation = Plus | Minus | Times | Over | Pow

text \<open>
  \<open>Atom2\<close> wraps one literal; \<open>Expression2\<close> joins two terms under an operation.
  The constructor of \<open>Atom2\<close> takes the first digit of the magnitude through
  \<open>Math.floor(abs / 10 ** Math.floor(Math.log10(abs)))\<close>; the engine builds the six
  literals 6, 9, 69 and their negatives only, on which that arithmetic is the integer
  arithmetic below.
\<close>

datatype expr = Atom2 int | Expression2 expr operation expr

fun floor_log10 :: "nat \<Rightarrow> nat" where
  "floor_log10 a = (if a < 10 then 0 else Suc (floor_log10 (a div 10)))"

declare floor_log10.simps [simp del]

definition Atom2_start :: "int \<Rightarrow> int" where
  "Atom2_start v = (let abs = nat \<bar>v\<bar>; pow = floor_log10 abs in int (abs div 10 ^ pow))"

definition Atom2_end :: "int \<Rightarrow> int" where
  "Atom2_end v = \<bar>v\<bar> mod 10"

fun expr_start :: "expr \<Rightarrow> int" where
  "expr_start (Atom2 v) = Atom2_start v"
| "expr_start (Expression2 leftTerm operation rightTerm) = expr_start leftTerm"

fun expr_end :: "expr \<Rightarrow> int" where
  "expr_end (Atom2 v) = Atom2_end v"
| "expr_end (Expression2 leftTerm operation rightTerm) = expr_end rightTerm"

text \<open>
  The field \<open>complete\<close> exists on \<open>Expression2\<close> only; on an \<open>Atom2\<close> the property is
  undefined, which every test of it in the source reads as false.
\<close>

fun expr_complete :: "expr \<Rightarrow> bool" where
  "expr_complete (Atom2 v) = False"
| "expr_complete (Expression2 leftTerm operation rightTerm) =
     (expr_start leftTerm = 6 \<and> expr_end rightTerm = 9)"

text \<open>
  \<open>Expression2.Operations\<close>. The operands are whatever the sub-terms evaluate to. A flag
  object on the left has no methods, so the call throws; on the right its fields are
  undefined, so the BigInt arithmetic of \<open>plus\<close>, \<open>minus\<close>, \<open>times\<close> and \<open>over\<close> throws,
  while \<open>toThe\<close> sees \<open>that.root !== 1n\<close> and returns the error flag.
\<close>

fun Operations :: "operation \<Rightarrow> verify \<Rightarrow> verify \<Rightarrow> thrown + verify" where
  "Operations Plus (Val left) (Val right) = map_sum id Val (Exact_plus left right)"
| "Operations Minus (Val left) (Val right) = map_sum id Val (Exact_minus left right)"
| "Operations Times (Val left) (Val right) = Inr (Val (Exact_times left right))"
| "Operations Over (Val left) (Val right) = Exact_over left right"
| "Operations Pow (Val left) (Val right) = Exact_toThe left right"
| "Operations Pow (Val left) right = Inr ErrorFlag"
| "Operations operation left right = Inl TypeError"

fun expr_evaluate :: "expr \<Rightarrow> thrown + verify" where
  "expr_evaluate (Atom2 v) = Inr (Val (newExact v))"
| "expr_evaluate (Expression2 leftTerm operation rightTerm) =
     (case expr_evaluate leftTerm of
        Inl e \<Rightarrow> Inl e
      | Inr LeftValue \<Rightarrow>
          (case expr_evaluate rightTerm of
             Inl e \<Rightarrow> Inl e
           | Inr RightValue \<Rightarrow> Operations operation LeftValue RightValue))"

fun operation_symbol :: "operation \<Rightarrow> string" where
  "operation_symbol Plus = ''+''"
| "operation_symbol Minus = ''-''"
| "operation_symbol Times = ''*''"
| "operation_symbol Over = ''/''"
| "operation_symbol Pow = ''**''"

fun expr_display :: "expr \<Rightarrow> string" where
  "expr_display (Atom2 v) =
     (case Exact_display (newExact v) of Str s \<Rightarrow> s | FloatFlag \<Rightarrow> ''[object Object]'')"
| "expr_display (Expression2 leftTerm operation rightTerm) =
     ''('' @ expr_display leftTerm @ '' '' @ operation_symbol operation @ '' ''
       @ expr_display rightTerm @ '')''"

section \<open>Objects as property tables\<close>

text \<open>
  An object of the host language enumerates its own properties (\<open>for ... in\<close>,
  \<open>Object.keys\<close>) with the array-index keys first, in ascending numeric order, and the
  other string keys after them, in the order of their creation. An array index is the
  canonical decimal string of an integer from 0 to \<open>2^32 - 2\<close>. A table is the list of the
  properties in enumeration order.
\<close>

type_synonym 'a object = "(string \<times> 'a) list"

definition digit_value :: "char \<Rightarrow> int option" where
  "digit_value c = map_of (zip ''0123456789'' [0, 1, 2, 3, 4, 5, 6, 7, 8, 9]) c"

fun parse_digits :: "string \<Rightarrow> int \<Rightarrow> int option" where
  "parse_digits [] acc = Some acc"
| "parse_digits (c # cs) acc =
     (case digit_value c of None \<Rightarrow> None | Some d \<Rightarrow> parse_digits cs (10 * acc + d))"

definition array_index :: "string \<Rightarrow> int option" where
  "array_index key =
     (case key of
        [] \<Rightarrow> None
      | c # cs \<Rightarrow>
          if c = CHR ''0'' \<and> cs \<noteq> [] then None
          else (case parse_digits key 0 of
                  None \<Rightarrow> None
                | Some n \<Rightarrow> if n < 4294967295 then Some n else None))"

fun insert_index :: "int \<Rightarrow> string \<Rightarrow> 'a \<Rightarrow> 'a object \<Rightarrow> 'a object" where
  "insert_index n key v [] = [(key, v)]"
| "insert_index n key v ((k, w) # rest) =
     (case array_index k of
        Some m \<Rightarrow> if m < n then (k, w) # insert_index n key v rest
                  else (key, v) # (k, w) # rest
      | None \<Rightarrow> (key, v) # (k, w) # rest)"

text \<open>\<open>obj[key] = v\<close>: an existing property keeps its place.\<close>

definition setProp :: "'a object \<Rightarrow> string \<Rightarrow> 'a \<Rightarrow> 'a object" where
  "setProp obj key v =
     (case map_of obj key of
        Some w \<Rightarrow> AList.update key v obj
      | None \<Rightarrow>
          (case array_index key of
             Some n \<Rightarrow> insert_index n key v obj
           | None \<Rightarrow> obj @ [(key, v)]))"

text \<open>\<open>toString\<close> of a non-negative integer Number (the float counter).\<close>

fun Number_toString :: "nat \<Rightarrow> string" where
  "Number_toString n =
     (if n < 10 then [''0123456789'' ! n]
      else Number_toString (n div 10) @ [''0123456789'' ! (n mod 10)])"

declare Number_toString.simps [simp del]

section \<open>The enumeration, version 3\<close>

text \<open>
  The state of one level under construction: the table \<open>List[operations]\<close>, the array
  \<open>knownNumbers\<close>, and the \<open>floatCounter\<close> of the composition being visited. The tables of
  the earlier levels are only read.
\<close>

record level_state =
  current :: "expr object"
  knownNumbers :: "string list"
  floatCounter :: nat

text \<open>\<open>Object.keys(Expression2.Operations).filter(op => op !== '**')\<close>\<close>

definition OperationList :: "operation list" where
  "OperationList = filter (\<lambda>op. op \<noteq> Pow) [Plus, Minus, Times, Over, Pow]"

text \<open>
  The body of the operation loop for one operation, from the adjacency test to the
  bookkeeping of the result.
\<close>

definition attempt :: "nat \<Rightarrow> nat \<Rightarrow> expr \<Rightarrow> operation \<Rightarrow> expr \<Rightarrow> level_state
    \<Rightarrow> thrown + level_state" where
  "attempt N operations LeftExpression Operation RightExpression st =
     (if expr_end LeftExpression \<noteq> expr_start RightExpression then
        let newExpression = Expression2 LeftExpression Operation RightExpression in
        case expr_evaluate newExpression of
          Inl e \<Rightarrow> Inl e
        | Inr ErrorFlag \<Rightarrow> Inr st
        | Inr OverflowFlag \<Rightarrow> Inr st
        | Inr (Val Verify) \<Rightarrow>
            (case Exact_display Verify of
               FloatFlag \<Rightarrow>
                 Inr (if operations < N
                      then st\<lparr>current := setProp (current st)
                              (''float'' @ Number_toString (floatCounter st)) newExpression\<rparr>
                      else st)
             | Str Display \<Rightarrow>
                 if Display \<notin> set (knownNumbers st) \<and> length Display < 20 then
                   let st1 = (if expr_complete newExpression \<or> operations < N
                              then st\<lparr>current := setProp (current st) Display newExpression\<rparr>
                              else st);
                       st2 = (if expr_complete newExpression
                              then st1\<lparr>knownNumbers := knownNumbers st1 @ [Display]\<rparr>
                              else st1)
                   in Inr st2
                 else Inr st)
      else Inr st)"

text \<open>
  \<open>for (const Operation of OperationList)\<close>, with its \<open>break\<close> and the increment
  of the float counter at the end of each round.
\<close>

fun operation_loop :: "nat \<Rightarrow> nat \<Rightarrow> bool \<Rightarrow> expr \<Rightarrow> expr \<Rightarrow> operation list \<Rightarrow> level_state
    \<Rightarrow> thrown + level_state" where
  "operation_loop N operations ignoreSumAndMul LeftExpression RightExpression [] st = Inr st"
| "operation_loop N operations ignoreSumAndMul LeftExpression RightExpression (Operation # rest) st =
     (if ignoreSumAndMul \<and> (Operation = Plus \<or> Operation = Times) then Inr st
      else
        case attempt N operations LeftExpression Operation RightExpression st of
          Inl e \<Rightarrow> Inl e
        | Inr st1 \<Rightarrow>
            operation_loop N operations ignoreSumAndMul LeftExpression RightExpression rest
              (st1\<lparr>floatCounter := floatCounter st1 + 1\<rparr>))"

text \<open>A loop over a list whose body may throw.\<close>

fun for_each :: "('a \<Rightarrow> 's \<Rightarrow> thrown + 's) \<Rightarrow> 'a list \<Rightarrow> 's \<Rightarrow> thrown + 's" where
  "for_each body [] st = Inr st"
| "for_each body (x # xs) st =
     (case body x st of Inl e \<Rightarrow> Inl e | Inr st1 \<Rightarrow> for_each body xs st1)"

definition compositionPair :: "nat \<Rightarrow> (nat \<times> nat) list" where
  "compositionPair Num = map (\<lambda>i. (i, Num - i)) (rev [0..<Suc Num])"

text \<open>
  The callback of \<open>Compositions.forEach\<close>. Reading a level that does not exist gives
  \<open>undefined\<close>: \<open>Object.keys(LeftNumbers)\<close> then throws, while \<open>for ... in\<close> over an
  undefined \<open>RightNumbers\<close> runs no round.
\<close>

definition composition_step :: "nat \<Rightarrow> nat \<Rightarrow> expr object list \<Rightarrow> nat \<times> nat \<Rightarrow> level_state
    \<Rightarrow> thrown + level_state" where
  "composition_step N operations List composition st =
     (if fst composition < length List then
        let LeftNumbers = List ! fst composition;
            RightNumbers = (if snd composition < length List then List ! snd composition
                            else []);
            ignoreSumAndMul = (fst composition < snd composition)
        in for_each
             (\<lambda>LeftEntry.
                for_each
                  (\<lambda>RightEntry.
                     operation_loop N operations ignoreSumAndMul (snd LeftEntry) (snd RightEntry)
                       OperationList)
                  RightNumbers)
             LeftNumbers (st\<lparr>floatCounter := 0\<rparr>)
      else Inl TypeError)"

text \<open>One round of the outer loop: \<open>List[operations] = {}\<close> and all its compositions.\<close>

definition level_step :: "nat \<Rightarrow> nat \<Rightarrow> expr object list \<times> string list
    \<Rightarrow> thrown + expr object list \<times> string list" where
  "level_step N operations state =
     (case for_each (composition_step N operations (fst state)) (compositionPair (operations - 1))
             \<lparr>current = [], knownNumbers = snd state, floatCounter = 0\<rparr> of
        Inl e \<Rightarrow> Inl e
      | Inr st \<Rightarrow> Inr (fst state @ [current st], knownNumbers st))"

definition List0 :: "expr object" where
  "List0 = foldl (\<lambda>obj (key, v). setProp obj key v) []
     [(''-6'', Atom2 (- 6)), (''6'', Atom2 6), (''-9'', Atom2 (- 9)), (''9'', Atom2 9),
      (''69'', Atom2 69), (''-69'', Atom2 (- 69))]"

definition build_List :: "nat \<Rightarrow> thrown + expr object list \<times> string list" where
  "build_List N = for_each (level_step N) [1..<Suc N] ([List0], [''69'', ''-69''])"

text \<open>The projection at the end: the display of every entry whose \<open>complete\<close> is true.\<close>

definition project :: "expr object \<Rightarrow> string object" where
  "project level =
     foldl (\<lambda>Obj (Num, e). if expr_complete e then setProp Obj Num (expr_display e) else Obj)
       [] level"

datatype returned = RawList "expr object list" | Result "string object list" "string list"

definition getExpression_version3 :: "nat \<Rightarrow> thrown + returned" where
  "getExpression_version3 N =
     (if N = 0 then Inr (RawList [List0])
      else case build_List N of
             Inl e \<Rightarrow> Inl e
           | Inr (List, known) \<Rightarrow> Inr (Result (map project List) known))"

section \<open>Predicates and observations used in the properties\<close>

text \<open>Reduced form: a positive denominator, and no common divisor with the numerator.\<close>

definition reduced :: "Exact \<Rightarrow> bool" where
  "reduced r = (0 < den r \<and> gcd \<bar>num r\<bar> (den r) = 1)"

text \<open>The keys of the non-integer results: \<open>'float' + floatCounter.toString()\<close>.\<close>

definition float_key :: "string \<Rightarrow> bool" where
  "float_key K = (take 5 K = ''float'')"

text \<open>
  The spec's completeness of a term: it starts on a 6 and ends on a 9. The field
  \<open>complete\<close> of an \<open>Expression2\<close> holds exactly this.
\<close>

definition is_complete :: "expr \<Rightarrow> bool" where
  "is_complete t = (expr_start t = 6 \<and> expr_end t = 9)"

text \<open>
  A term evaluates cleanly when its value is an Exact with a positive denominator and
  root 1; an entry of a level table is in order when moreover its key is the display of
  the value, or a float key for a value that displays as the float flag.
\<close>

definition sound :: "expr \<Rightarrow> bool" where
  "sound t = (case expr_evaluate t of Inr (Val e) \<Rightarrow> 0 < den e \<and> root e = 1 | _ \<Rightarrow> False)"

definition entry_ok :: "string \<Rightarrow> expr \<Rightarrow> bool" where
  "entry_ok K t =
     (case expr_evaluate t of
        Inr (Val e) \<Rightarrow> 0 < den e \<and> root e = 1 \<and>
          (case Exact_display e of Str s \<Rightarrow> K = s | FloatFlag \<Rightarrow> float_key K)
      | _ \<Rightarrow> False)"

text \<open>
  The invariant of a level under construction, relative to the array \<open>knownNumbers\<close> as it
  was when the level began.
\<close>

definition level_inv :: "string list \<Rightarrow> level_state \<Rightarrow> bool" where
  "level_inv known0 st =
     (set known0 \<subseteq> set (knownNumbers st) \<and>
      (\<forall>(K, t) \<in> set (current st).
          entry_ok K t \<and>
          (\<not> float_key K \<longrightarrow> K \<notin> set known0 \<and> (is_complete t \<longrightarrow> K \<in> set (knownNumbers st)))))"

text \<open>
  The invariant of the finished levels and \<open>knownNumbers\<close>: every entry is in order, every
  complete entry under an integer key is known, no level after the first holds the keys
  69 and -69, and a complete integer key of one level is a key of no later level.
\<close>

definition List_inv :: "expr object list \<Rightarrow> string list \<Rightarrow> bool" where
  "List_inv List known =
     (List \<noteq> [] \<and> List ! 0 = List0 \<and> ''69'' \<in> set known \<and> ''-69'' \<in> set known \<and>
      (\<forall>k < length List. \<forall>(K, t) \<in> set (List ! k).
          entry_ok K t \<and>
          (\<not> float_key K \<longrightarrow>
             (is_complete t \<longrightarrow> K \<in> set known) \<and> (0 < k \<longrightarrow> K \<noteq> ''69'' \<and> K \<noteq> ''-69''))) \<and>
      (\<forall>k' < length List. \<forall>k < k'. \<forall>(K, t) \<in> set (List ! k).
          \<not> float_key K \<longrightarrow> is_complete t \<longrightarrow> K \<notin> fst ` set (List ! k')))"

text \<open>The product of nine factors 69, nested to the left: a complete term of eight operations.\<close>

abbreviation (input) T9 :: expr where
  "T9 \<equiv> Expression2 (Expression2 (Expression2 (Expression2 (Expression2
   (Expression2 (Expression2 (Expression2 (Atom2 69) Times (Atom2 69)) Times (Atom2 69)) Times (Atom2 69))
     Times (Atom2 69)) Times (Atom2 69)) Times (Atom2 69)) Times (Atom2 69)) Times (Atom2 69)"

text \<open>The number of operations of a term: its \<open>Expression2\<close> nodes.\<close>

fun operation_count :: "expr \<Rightarrow> nat" where
  "operation_count (Atom2 v) = 0"
| "operation_count (Expression2 leftTerm operation rightTerm) =
     Suc (operation_count leftTerm + operation_count rightTerm)"

text \<open>Every term of the level under construction, and of each finished level, has as many
  operations as its level.\<close>

definition count_inv :: "nat \<Rightarrow> level_state \<Rightarrow> bool" where
  "count_inv n st = (\<forall>(K, t) \<in> set (current st). operation_count t = n)"

definition List_count :: "expr object list \<Rightarrow> bool" where
  "List_count List = (\<forall>k < length List. \<forall>(K, t) \<in> set (List ! k). operation_count t = k)"

text \<open>
  The table of level \<open>k\<close> in the run with budget \<open>N\<close>. The run always returns its
  \<open>N + 1\<close> tables (\<open>build_List_inv\<close>); the empty table stands for a level beyond them.
\<close>

definition level_table :: "nat \<Rightarrow> nat \<Rightarrow> expr object" where
  "level_table N k =
     (case build_List N of
        Inr (List, known) \<Rightarrow> if k < length List then List ! k else []
      | Inl e \<Rightarrow> [])"

section \<open>Properties of the Exact arithmetic\<close>

lemma Exact_Abs_eq: "Exact_Abs X = \<bar>X\<bar>"
  by (simp add: Exact_Abs_def)

lemma bigint_rem_nonneg: "0 \<le> a \<Longrightarrow> 0 \<le> b \<Longrightarrow> bigint_rem a b = a mod b"
  by (cases "a = 0") (simp_all add: bigint_rem_def)

lemma bigint_div_dvd: "b dvd a \<Longrightarrow> bigint_div a b = a div b"
proof -
  assume d: "b dvd a"
  then obtain c where a: "a = b * c" by (auto simp: dvd_def)
  show ?thesis
  proof (cases "b = 0")
    case True
    then show ?thesis by (simp add: bigint_div_def)
  next
    case False
    then have "\<bar>a\<bar> div \<bar>b\<bar> = \<bar>c\<bar>" by (simp add: a abs_mult)
    moreover have "sgn a * sgn b * \<bar>c\<bar> = c"
    proof -
      have "sgn a * sgn b * \<bar>c\<bar> = (sgn b * sgn b) * (sgn c * \<bar>c\<bar>)"
        by (simp only: a sgn_mult ac_simps)
      also have "sgn b * sgn b = 1" using False by (simp add: sgn_mult_self_eq)
      also have "sgn c * \<bar>c\<bar> = c" by (simp add: sgn_mult_abs)
      finally show ?thesis by simp
    qed
    moreover have "a div b = c" using False by (simp add: a)
    ultimately show ?thesis by (simp add: bigint_div_def)
  qed
qed

lemma gcd_loop_eq: "0 \<le> X \<Longrightarrow> 0 \<le> Y \<Longrightarrow> gcd_loop X Y = gcd X Y"
proof (induction X Y rule: gcd_loop.induct)
  case (1 X Y)
  show ?case
  proof (cases "Y = 0")
    case True
    with "1.prems" show ?thesis by (simp add: gcd_loop.simps)
  next
    case Y: False
    define X1 where "X1 = bigint_rem X Y"
    have X1: "X1 = X mod Y" using "1.prems" by (simp add: X1_def bigint_rem_nonneg)
    show ?thesis
    proof (cases "X1 = 0")
      case True
      then have "Y dvd X" using X1 by (simp add: dvd_eq_mod_eq_0)
      then have "gcd X Y = Y" using "1.prems" by (simp add: gcd_unique_int [symmetric] )
      with Y True show ?thesis by (simp add: gcd_loop.simps [of X Y] X1_def)
    next
      case False
      have pos: "0 \<le> X1" "0 < Y" using X1 "1.prems" Y by auto
      have r: "bigint_rem Y X1 = Y mod X1" using pos "1.prems" by (simp add: bigint_rem_nonneg)
      have "0 \<le> Y mod X1" using pos False by simp
      then have "gcd_loop X1 (bigint_rem Y X1) = gcd X1 (bigint_rem Y X1)"
        using "1.IH" [OF Y X1_def False] pos r by simp
      also have "\<dots> = gcd X1 (Y mod X1)" by (simp add: r)
      also have "\<dots> = gcd Y X1" by (metis gcd.commute gcd_red_int)
      also have "\<dots> = gcd X Y" unfolding X1 by (metis gcd.commute gcd_red_int)
      finally show ?thesis using Y False by (simp add: gcd_loop.simps [of X Y] X1_def Let_def)
    qed
  qed
qed

lemma Exact_gcd_eq: "0 \<le> X \<Longrightarrow> 0 \<le> Y \<Longrightarrow> Exact_gcd X Y = gcd X Y"
  by (simp add: Exact_gcd_def gcd_loop_eq gcd.commute)

lemma reduce_step:
  assumes "0 < Den" and "g = Exact_gcd (Exact_Abs Num) Den"
  shows "g = gcd Num Den" and "0 < g" and "bigint_div Num g = Num div g"
    and "bigint_div Den g = Den div g" and "0 < Den div g"
    and "gcd \<bar>Num div g\<bar> (Den div g) = 1"
proof -
  show g: "g = gcd Num Den"
    using assms by (simp add: Exact_Abs_eq Exact_gcd_eq)
  show pos: "0 < g"
    using assms(1) by (simp add: g gcd_pos_int)
  show "bigint_div Num g = Num div g" and "bigint_div Den g = Den div g"
    by (simp_all add: g bigint_div_dvd)
  have "g dvd Den" by (simp add: g)
  then have "g \<le> Den" using assms(1) by (simp add: zdvd_imp_le)
  then show "0 < Den div g" using pos by (simp add: pos_imp_zdiv_pos_iff)
  have "coprime (Num div g) (Den div g)"
    unfolding g using assms(1) by (intro div_gcd_coprime) simp
  then show "gcd \<bar>Num div g\<bar> (Den div g) = 1"
    by (simp add: coprime_iff_gcd_eq_1)
qed

lemma fraction_unique:
  fixes X Y an ad :: int
  assumes "0 < ad" and "gcd \<bar>an\<bar> ad = 1" and "0 < Y" and "X * ad = an * Y"
  shows "X div gcd X Y = an" and "Y div gcd X Y = ad"
proof -
  have cop: "coprime ad an"
    using assms(2) by (simp add: coprime_iff_gcd_eq_1 gcd.commute)
  have "ad dvd an * Y" using assms(4) by (metis dvd_triv_right)
  then have "ad dvd Y" using cop by (simp add: coprime_dvd_mult_right_iff)
  then obtain c where Y: "Y = ad * c" by (auto simp: dvd_def)
  have c: "0 < c" using assms(1,3) Y by (simp add: zero_less_mult_iff)
  have "X * ad = (an * c) * ad" using assms(4) Y by (simp add: ac_simps)
  then have X: "X = an * c" using assms(1) by simp
  have "gcd X Y = gcd (c * an) (c * ad)" by (simp add: X Y ac_simps)
  also have "\<dots> = \<bar>c\<bar> * gcd an ad" by (rule gcd_mult_distrib_int [symmetric])
  also have "\<dots> = c" using c cop by (simp add: coprime_iff_gcd_eq_1 gcd.commute)
  finally have g: "gcd X Y = c" .
  show "X div gcd X Y = an" unfolding g using c by (simp add: X)
  show "Y div gcd X Y = ad" unfolding g using c by (simp add: Y)
qed

lemma Exact_plus_reduced:
  assumes "0 < den a" and "0 < den b"
  shows "\<exists>r. Exact_plus a b = Inr r \<and> reduced r \<and> root r = 1"
proof -
  define Num where "Num = num a * den b + den a * num b"
  define Den where "Den = den a * den b"
  define g where "g = Exact_gcd (Exact_Abs Num) Den"
  have Den: "0 < Den" using assms by (simp add: Den_def)
  note st = reduce_step [OF Den g_def]
  have "Exact_plus a b = Inr \<lparr>num = Num div g, den = Den div g, root = 1\<rparr>"
    using st(2) by (simp add: Exact_plus_def Let_def Num_def [symmetric] Den_def [symmetric]
        g_def [symmetric] st(3,4))
  then show ?thesis using st(5,6) by (simp add: reduced_def)
qed

lemma Exact_minus_reduced:
  assumes "0 < den a" and "0 < den b"
  shows "\<exists>r. Exact_minus a b = Inr r \<and> reduced r \<and> root r = 1"
proof -
  define Num where "Num = num a * den b - den a * num b"
  define Den where "Den = den a * den b"
  define g where "g = Exact_gcd (Exact_Abs Num) Den"
  have Den: "0 < Den" using assms by (simp add: Den_def)
  note st = reduce_step [OF Den g_def]
  have "Exact_minus a b = Inr \<lparr>num = Num div g, den = Den div g, root = 1\<rparr>"
    using st(2) by (simp add: Exact_minus_def Let_def Num_def [symmetric] Den_def [symmetric]
        g_def [symmetric] st(3,4))
  then show ?thesis using st(5,6) by (simp add: reduced_def)
qed

lemma Exact_times_eq:
  assumes "0 < den a" and "0 < den b"
  shows "Exact_times a b =
    \<lparr>num = num a * num b div gcd (num a * num b) (den a * den b),
     den = den a * den b div gcd (num a * num b) (den a * den b), root = 1\<rparr>"
proof -
  define Num where "Num = num a * num b"
  define Den where "Den = den a * den b"
  define g where "g = Exact_gcd (Exact_Abs Num) Den"
  have Den: "0 < Den" using assms by (simp add: Den_def)
  note st = reduce_step [OF Den g_def]
  have "Exact_times a b = \<lparr>num = Num div g, den = Den div g, root = 1\<rparr>"
    using st(2) by (simp add: Exact_times_def Let_def Num_def [symmetric] Den_def [symmetric]
        g_def [symmetric] st(3,4))
  then show ?thesis by (simp add: st(1) Num_def Den_def)
qed

lemma Exact_times_reduced:
  assumes "0 < den a" and "0 < den b"
  shows "reduced (Exact_times a b) \<and> root (Exact_times a b) = 1"
proof -
  define Num where "Num = num a * num b"
  define Den where "Den = den a * den b"
  define g where "g = Exact_gcd (Exact_Abs Num) Den"
  have Den: "0 < Den" using assms by (simp add: Den_def)
  note st = reduce_step [OF Den g_def]
  show ?thesis
    using st(5,6) unfolding st(1) Num_def Den_def
    by (simp add: Exact_times_eq [OF assms] reduced_def)
qed

lemma Exact_over_eq:
  assumes "0 < den a" and "0 < den b" and "num b \<noteq> 0"
  shows "Exact_over a b = Inr (Val
    \<lparr>num = sgn (num b) * (num a * den b) div gcd (num a * den b) (den a * num b),
     den = \<bar>den a * num b\<bar> div gcd (num a * den b) (den a * num b), root = 1\<rparr>)"
proof -
  define Num where "Num = sgn (num b) * (num a * den b)"
  define Den where "Den = \<bar>den a * num b\<bar>"
  define g where "g = Exact_gcd (Exact_Abs Num) Den"
  have Den: "0 < Den" using assms by (simp add: Den_def)
  note st = reduce_step [OF Den g_def]
  have f: "(if den a * num b < 0 then - 1 else 1) = sgn (num b)"
    using assms by (auto simp: mult_less_0_iff sgn_if)
  have a: "Exact_Abs (num a * den b) = Exact_Abs Num"
    using assms(3) by (simp add: Exact_Abs_eq Num_def abs_mult abs_sgn_eq)
  have gg: "g = gcd (num a * den b) (den a * num b)"
    using assms(3) unfolding st(1) Num_def Den_def
    by (simp add: sgn_if)
  have "Exact_over a b = Inr (Val \<lparr>num = Num div g, den = Den div g, root = 1\<rparr>)"
    using st(2) assms(3)
    by (simp add: Exact_over_def Let_def f a Exact_Abs_eq [of "den a * num b"] Den_def [symmetric]
        g_def [symmetric] Num_def [symmetric] st(3,4))
  then show ?thesis by (simp add: gg [symmetric] Num_def Den_def)
qed

lemma Exact_over_reduced:
  assumes "0 < den a" and "0 < den b" and "num b \<noteq> 0"
  shows "\<exists>r. Exact_over a b = Inr (Val r) \<and> reduced r \<and> root r = 1"
proof -
  define Num where "Num = sgn (num b) * (num a * den b)"
  define Den where "Den = \<bar>den a * num b\<bar>"
  define g where "g = Exact_gcd (Exact_Abs Num) Den"
  have Den: "0 < Den" using assms by (simp add: Den_def)
  note st = reduce_step [OF Den g_def]
  have gg: "g = gcd (num a * den b) (den a * num b)"
    using assms(3) unfolding st(1) Num_def Den_def
    by (simp add: sgn_if)
  show ?thesis
    using st(5,6) unfolding gg Num_def Den_def
    by (simp add: Exact_over_eq [OF assms] reduced_def)
qed

text \<open>
  C4, as stated, fails: \<open>toThe\<close> inverts the base 0 for a negative exponent and returns
  the Exact 1/0 without a flag, so the term \<open>((69 - 69) ** -6) + 9\<close> hands it to \<open>plus\<close>.
  On this operand \<open>plus\<close>, \<open>minus\<close>, \<open>times\<close> and \<open>over\<close> all return an Exact whose
  denominator is 0, which is not in reduced form.
\<close>

theorem operations_on_zero_denominator:
  "Exact_toThe (newExact 0) (newExact (- 6)) = Inr (Val \<lparr>num = 1, den = 0, root = 1\<rparr>) \<and>
   expr_evaluate (Expression2
       (Expression2 (Expression2 (Atom2 69) Minus (Atom2 69)) Pow (Atom2 (- 6))) Plus (Atom2 9))
     = Inr (Val \<lparr>num = 1, den = 0, root = 1\<rparr>) \<and>
   Exact_plus \<lparr>num = 1, den = 0, root = 1\<rparr> (newExact 9) = Inr \<lparr>num = 1, den = 0, root = 1\<rparr> \<and>
   Exact_minus \<lparr>num = 1, den = 0, root = 1\<rparr> (newExact 9) = Inr \<lparr>num = 1, den = 0, root = 1\<rparr> \<and>
   Exact_times \<lparr>num = 1, den = 0, root = 1\<rparr> (newExact 9) = \<lparr>num = 1, den = 0, root = 1\<rparr> \<and>
   Exact_over \<lparr>num = 1, den = 0, root = 1\<rparr> (newExact 9)
     = Inr (Val \<lparr>num = 1, den = 0, root = 1\<rparr>) \<and>
   \<not> reduced \<lparr>num = 1, den = 0, root = 1\<rparr>"
proof -
  let ?z = "\<lparr>num = 1, den = 0, root = 1\<rparr>"
  have t: "Exact_toThe (newExact 0) (newExact (- 6)) = Inr (Val ?z)" by code_simp
  have e: "expr_evaluate (Expression2
       (Expression2 (Expression2 (Atom2 69) Minus (Atom2 69)) Pow (Atom2 (- 6))) Plus (Atom2 9))
     = Inr (Val ?z)" by code_simp
  have p: "Exact_plus ?z (newExact 9) = Inr ?z" by code_simp
  have m: "Exact_minus ?z (newExact 9) = Inr ?z" by code_simp
  have x: "Exact_times ?z (newExact 9) = ?z" by code_simp
  have v: "Exact_over ?z (newExact 9) = Inr (Val ?z)" by code_simp
  have r: "\<not> reduced ?z" by (simp add: reduced_def)
  show ?thesis by (intro conjI t e p m x v r)
qed

text \<open>
  C4, amended. Every Exact returned by \<open>plus\<close>, \<open>minus\<close>, \<open>times\<close> or \<open>over\<close> on operands
  whose denominators are positive is in reduced form: its denominator is positive and
  the greatest common divisor of the absolute numerator and the denominator is 1.
  \<open>over\<close> returns the error flag instead of an Exact when the divisor is zero.
\<close>

theorem Exact_operations_reduced:
  assumes "0 < den a" and "0 < den b"
  shows "(\<exists>r. Exact_plus a b = Inr r \<and> reduced r) \<and>
         (\<exists>r. Exact_minus a b = Inr r \<and> reduced r) \<and>
         reduced (Exact_times a b) \<and>
         (if num b = 0 then Exact_over a b = Inr ErrorFlag
          else \<exists>r. Exact_over a b = Inr (Val r) \<and> reduced r)"
proof (intro conjI)
  show "\<exists>r. Exact_plus a b = Inr r \<and> reduced r"
    using Exact_plus_reduced [OF assms] by blast
  show "\<exists>r. Exact_minus a b = Inr r \<and> reduced r"
    using Exact_minus_reduced [OF assms] by blast
  show "reduced (Exact_times a b)"
    using Exact_times_reduced [OF assms] by blast
  show "if num b = 0 then Exact_over a b = Inr ErrorFlag
        else \<exists>r. Exact_over a b = Inr (Val r) \<and> reduced r"
  proof (cases "num b = 0")
    case True
    then show ?thesis by (simp add: Exact_over_def)
  next
    case False
    then show ?thesis using Exact_over_reduced [OF assms False] by auto
  qed
qed

theorem Exact_operations_reduced_witness:
  "0 < den \<lparr>num = 2, den = 3, root = 1\<rparr> \<and> 0 < den \<lparr>num = - 3, den = 2, root = 1\<rparr> \<and>
   Exact_plus \<lparr>num = 2, den = 3, root = 1\<rparr> \<lparr>num = - 3, den = 2, root = 1\<rparr>
     = Inr \<lparr>num = - 5, den = 6, root = 1\<rparr> \<and>
   reduced \<lparr>num = - 5, den = 6, root = 1\<rparr> \<and>
   Exact_over \<lparr>num = 2, den = 3, root = 1\<rparr> \<lparr>num = - 3, den = 2, root = 1\<rparr>
     = Inr (Val \<lparr>num = - 4, den = 9, root = 1\<rparr>) \<and>
   reduced \<lparr>num = - 4, den = 9, root = 1\<rparr>"
proof -
  let ?a = "\<lparr>num = 2, den = 3, root = 1\<rparr>" and ?b = "\<lparr>num = - 3, den = 2, root = 1\<rparr>"
  have pos: "0 < den ?a" "0 < den ?b" by simp_all
  have p: "Exact_plus ?a ?b = Inr \<lparr>num = - 5, den = 6, root = 1\<rparr>" by code_simp
  have q: "Exact_over ?a ?b = Inr (Val \<lparr>num = - 4, den = 9, root = 1\<rparr>)" by code_simp
  from Exact_operations_reduced [OF pos]
  have "\<exists>r. Exact_plus ?a ?b = Inr r \<and> reduced r"
    and "\<exists>r. Exact_over ?a ?b = Inr (Val r) \<and> reduced r"
    by simp_all
  then have "reduced \<lparr>num = - 5, den = 6, root = 1\<rparr>" and "reduced \<lparr>num = - 4, den = 9, root = 1\<rparr>"
    unfolding p q by simp_all
  then show ?thesis using p q by simp
qed

text \<open>
  C5. For a rational Exact \<open>a\<close> (reduced, root 1) and a nonzero \<open>b\<close>, multiplying by \<open>b\<close> and
  dividing the product by \<open>b\<close> gives back \<open>a\<close> itself, so the display of the result is the
  display of \<open>a\<close>.
\<close>

theorem times_over_roundtrip:
  assumes "reduced a" and "root a = 1" and "0 < den b" and "num b \<noteq> 0"
  shows "\<exists>r. Exact_over (Exact_times a b) b = Inr (Val r) \<and> r = a \<and>
             Exact_display r = Exact_display a"
proof -
  have ad: "0 < den a" and cop: "gcd \<bar>num a\<bar> (den a) = 1"
    using assms(1) by (simp_all add: reduced_def)
  define g1 where "g1 = gcd (num a * num b) (den a * den b)"
  define p where "p = num a * num b div g1"
  define q where "q = den a * den b div g1"
  have m: "Exact_times a b = \<lparr>num = p, den = q, root = 1\<rparr>"
    by (simp add: Exact_times_eq [OF ad assms(3)] p_def q_def g1_def)
  have g1: "0 < g1" using ad assms(3) by (simp add: g1_def gcd_pos_int)
  have pg: "p * g1 = num a * num b" and qg: "q * g1 = den a * den b"
    by (simp_all add: p_def q_def g1_def)
  have q: "0 < q"
    using Exact_times_reduced [OF ad assms(3)] by (simp add: m reduced_def)
  define X where "X = sgn (num b) * (p * den b)"
  define Y where "Y = \<bar>q * num b\<bar>"
  have Y: "0 < Y" using q assms(4) by (simp add: Y_def)
  have Yq: "Y = q * \<bar>num b\<bar>" using q by (simp add: Y_def abs_mult)
  have sb: "sgn (num b) * num b = \<bar>num b\<bar>"
    by (simp add: abs_sgn mult.commute)
  have "X * den a * g1 = (sgn (num b) * den b * den a) * (p * g1)"
    by (simp add: X_def ac_simps)
  also have "\<dots> = (sgn (num b) * den b * den a) * (num a * num b)"
    by (simp only: pg)
  also have "\<dots> = num a * (sgn (num b) * num b) * (den a * den b)"
    by (simp only: ac_simps)
  also have "\<dots> = num a * \<bar>num b\<bar> * (q * g1)"
    by (simp only: sb qg)
  also have "\<dots> = num a * Y * g1"
    by (simp only: Yq ac_simps)
  finally have "X * den a = num a * Y" using g1 by simp
  note u = fraction_unique [OF ad cop Y this]
  have gxy: "gcd (p * den b) (q * num b) = gcd X Y"
    using assms(4) by (simp add: X_def Y_def sgn_if)
  have q': "0 < den \<lparr>num = p, den = q, root = 1\<rparr>" using q by simp
  have "Exact_over (Exact_times a b) b = Inr (Val \<lparr>num = X div gcd X Y, den = Y div gcd X Y, root = 1\<rparr>)"
    unfolding m using Exact_over_eq [OF q' assms(3,4)]
    by (simp add: gxy X_def [symmetric] Y_def [symmetric])
  then have "Exact_over (Exact_times a b) b = Inr (Val a)"
    using assms(2) by (simp add: u)
  then show ?thesis by simp
qed

theorem times_over_roundtrip_witness:
  "reduced \<lparr>num = 2, den = 3, root = 1\<rparr> \<and>
   Exact_times \<lparr>num = 2, den = 3, root = 1\<rparr> \<lparr>num = - 3, den = 2, root = 1\<rparr> = newExact (- 1) \<and>
   Exact_over (newExact (- 1)) \<lparr>num = - 3, den = 2, root = 1\<rparr>
     = Inr (Val \<lparr>num = 2, den = 3, root = 1\<rparr>)"
proof -
  let ?a = "\<lparr>num = 2, den = 3, root = 1\<rparr>" and ?b = "\<lparr>num = - 3, den = 2, root = 1\<rparr>"
  have r: "reduced ?a" by (simp add: reduced_def)
  have t: "Exact_times ?a ?b = newExact (- 1)" by code_simp
  from times_over_roundtrip [OF r, of ?b]
  have "Exact_over (Exact_times ?a ?b) ?b = Inr (Val ?a)" by simp
  then show ?thesis using r t by simp
qed

lemma toThe_loop_done: "\<not> i < NumAbs \<Longrightarrow> toThe_loop This i NumAbs Res = Some Res"
  by (simp add: toThe_loop.simps)

text \<open>
  C9. For a reduced Exact \<open>a\<close> and the exponent zero (numerator 0, denominator 1, root 1),
  \<open>toThe\<close> returns the numerator and the denominator of \<open>a\<close> unchanged, not 1: the loop
  multiplies only while \<open>i < NumAbs\<close>, and \<open>NumAbs\<close> is 0.
\<close>

theorem toThe_zero_exponent:
  assumes "reduced a"
  shows "Exact_toThe a (newExact 0) = Inr (Val \<lparr>num = num a, den = den a, root = 1\<rparr>)"
proof -
  have g: "Exact_gcd (Exact_Abs (num a)) (den a) = 1"
    using assms by (simp add: reduced_def Exact_Abs_eq Exact_gcd_eq)
  have d: "bigint_div x 1 = x" for x
    by (simp add: bigint_div_dvd)
  show ?thesis
    by (simp add: Exact_toThe_def newExact_def Exact_Abs_def [of 0] Exact_copy_def
        toThe_loop_done g d)
qed

theorem toThe_zero_exponent_witness:
  "reduced (newExact 69) \<and>
   Exact_toThe (newExact 69) (newExact 0) = Inr (Val \<lparr>num = 69, den = 1, root = 1\<rparr>)"
proof -
  have r: "reduced (newExact 69)" by (simp add: reduced_def newExact_def)
  show ?thesis using r toThe_zero_exponent [OF r] by (simp add: newExact_def)
qed

lemma toThe_large_exponent:
  "root b = 1 \<Longrightarrow> 100 < \<bar>num b\<bar> \<Longrightarrow> Exact_toThe a b = Inr OverflowFlag"
  by (simp add: Exact_toThe_def Exact_Abs_eq Let_def)

lemma toThe_nine_six: "Exact_toThe (newExact 9) (newExact 6) = Inr (Val (newExact 531441))"
  by code_simp

lemma toThe_sixtynine_sixtynine: "Exact_toThe (newExact 69) (newExact 69) = Inr OverflowFlag"
  by code_simp

text \<open>
  C6. The guard of \<open>toThe\<close> compares \<open>BigIntLog10\<close> of the numerator and of the denominator.
  \<open>BigIntLog10\<close> stops dividing as soon as the magnitude is at most 10, so it gives 20 on
  \<open>10^21\<close>: raising 10 to the power 21 returns a numerator of 22 digits over the
  denominator 1, a difference of 21 digits, and no overflow.
\<close>

theorem toThe_ten_twentyone:
  "Exact_toThe (newExact 10) (newExact 21) = Inr (Val (newExact 1000000000000000000000)) \<and>
   length (display_loop 1000000000000000000000 []) = 22 \<and>
   length (display_loop 1 []) = 1 \<and>
   BigIntLog10 1000000000000000000000 = 20 \<and> BigIntLog10 1 = 0"
  by code_simp

text \<open>
  C7, as stated, fails: the exponent 1/2 (root 1) is not refused, and neither is the
  exponent 3/2 of the candidate \<open>6 ** (9 / 6)\<close>, which the enumeration retains under a
  float key when a later level exists.
\<close>

theorem toThe_fractional_exponent_accepted:
  "Exact_toThe (newExact 4) \<lparr>num = 1, den = 2, root = 1\<rparr> = Inr (Val \<lparr>num = 4, den = 1, root = 2\<rparr>) \<and>
   attempt 3 2 (Atom2 6) Pow (Expression2 (Atom2 9) Over (Atom2 6))
     \<lparr>current = [], knownNumbers = [''69'', ''-69''], floatCounter = 0\<rparr>
   = Inr \<lparr>current = [(''float0'', Expression2 (Atom2 6) Pow (Expression2 (Atom2 9) Over (Atom2 6)))],
          knownNumbers = [''69'', ''-69''], floatCounter = 0\<rparr>"
  by code_simp

text \<open>
  C7, amended. \<open>toThe\<close> returns the error flag exactly when the root field of the exponent
  is not 1, and the enumeration then discards the candidate. An exponent with root 1 is
  never refused with the error flag, whatever its denominator.
\<close>

theorem toThe_error_iff_rooted_exponent:
  "(Exact_toThe a b = Inr ErrorFlag \<longleftrightarrow> root b \<noteq> 1) \<and>
   (root b \<noteq> 1 \<longrightarrow> expr_end LeftExpression \<noteq> expr_start RightExpression \<longrightarrow>
      expr_evaluate LeftExpression = Inr (Val a) \<longrightarrow>
      expr_evaluate RightExpression = Inr (Val b) \<longrightarrow>
      attempt N operations LeftExpression Pow RightExpression st = Inr st)"
proof (intro conjI impI)
  show "Exact_toThe a b = Inr ErrorFlag \<longleftrightarrow> root b \<noteq> 1"
    by (auto simp: Exact_toThe_def Let_def split: option.splits)
next
  assume "root b \<noteq> 1" and "expr_evaluate LeftExpression = Inr (Val a)"
    and "expr_evaluate RightExpression = Inr (Val b)"
  then show "attempt N operations LeftExpression Pow RightExpression st = Inr st"
    by (simp add: attempt_def Exact_toThe_def)
qed

theorem toThe_error_iff_rooted_exponent_witness:
  "root \<lparr>num = 216, den = 1, root = 2\<rparr> \<noteq> 1 \<and>
   expr_end (Atom2 69) \<noteq> expr_start (Expression2 (Atom2 6) Pow (Expression2 (Atom2 9) Over (Atom2 6))) \<and>
   expr_evaluate (Atom2 69) = Inr (Val (newExact 69)) \<and>
   expr_evaluate (Expression2 (Atom2 6) Pow (Expression2 (Atom2 9) Over (Atom2 6)))
     = Inr (Val \<lparr>num = 216, den = 1, root = 2\<rparr>) \<and>
   Exact_toThe (newExact 69) \<lparr>num = 216, den = 1, root = 2\<rparr> = Inr ErrorFlag \<and>
   attempt 4 3 (Atom2 69) Pow (Expression2 (Atom2 6) Pow (Expression2 (Atom2 9) Over (Atom2 6)))
     \<lparr>current = [], knownNumbers = [''69'', ''-69''], floatCounter = 0\<rparr>
   = Inr \<lparr>current = [], knownNumbers = [''69'', ''-69''], floatCounter = 0\<rparr>"
proof -
  let ?R = "Expression2 (Atom2 6) Pow (Expression2 (Atom2 9) Over (Atom2 6))"
  let ?b = "\<lparr>num = 216, den = 1, root = 2\<rparr>"
  have r: "root ?b \<noteq> 1" by simp
  have adj: "expr_end (Atom2 69) \<noteq> expr_start ?R" by code_simp
  have l: "expr_evaluate (Atom2 69) = Inr (Val (newExact 69))" by simp
  have e: "expr_evaluate ?R = Inr (Val ?b)" by code_simp
  from toThe_error_iff_rooted_exponent [of "newExact 69" ?b "Atom2 69" ?R]
  show ?thesis using r adj l e by simp
qed

section \<open>Properties of the property tables and of the display\<close>

lemma set_insert_index: "set (insert_index n key v obj) = insert (key, v) (set obj)"
  by (induction n key v obj rule: insert_index.induct) (auto split: option.splits if_splits)

lemma set_AList_update: "set (AList.update key v obj) \<subseteq> insert (key, v) (set obj)"
  by (induction obj) auto

lemma set_setProp: "set (setProp obj key v) \<subseteq> insert (key, v) (set obj)"
  using set_AList_update [of key v obj]
  by (auto simp: setProp_def set_insert_index split: option.splits)

lemma map_of_insert_index:
  "map_of obj key = None \<Longrightarrow> map_of (insert_index n key v obj) = (map_of obj)(key \<mapsto> v)"
  by (induction n key v obj rule: insert_index.induct) (auto split: option.splits if_splits)

lemma map_of_setProp: "map_of (setProp obj key v) = (map_of obj)(key \<mapsto> v)"
proof (cases "map_of obj key")
  case None
  then have "map_of (obj @ [(key, v)]) = (map_of obj)(key \<mapsto> v)"
    by (auto simp: map_add_def fun_eq_iff split: option.splits)
  with None show ?thesis
    by (simp add: setProp_def map_of_insert_index split: option.splits)
next
  case (Some w)
  then show ?thesis by (simp add: setProp_def update_conv')
qed

lemma Digit_single:
  "0 \<le> m \<Longrightarrow> m < 10 \<Longrightarrow> \<exists>c. Digit_indexOf_toString m = [c] \<and> c \<in> set ''0123456789''"
proof -
  assume "0 \<le> m" and "m < 10"
  then have "m = 0 \<or> m = 1 \<or> m = 2 \<or> m = 3 \<or> m = 4 \<or> m = 5 \<or> m = 6 \<or> m = 7
    \<or> m = 8 \<or> m = 9"
    by arith
  then show ?thesis
    by (elim disjE) (simp_all add: Digit_indexOf_toString_def)
qed

lemma display_loop_head:
  "0 < theInt \<Longrightarrow> display_loop theInt rs \<noteq> [] \<and> hd (display_loop theInt rs) \<in> set ''0123456789''"
proof (induction theInt rs rule: display_loop.induct)
  case (1 theInt rs)
  have r: "0 \<le> bigint_rem theInt 10" "bigint_rem theInt 10 < 10"
    using "1.prems" by (simp_all add: bigint_rem_nonneg)
  from Digit_single [OF r] obtain c where
    c: "Digit_indexOf_toString (bigint_rem theInt 10) = [c]" "c \<in> set ''0123456789''" by blast
  show ?case
  proof (cases "0 < bigint_div theInt 10")
    case True
    then show ?thesis
      using "1.IH" [OF "1.prems" True] "1.prems" by (simp add: display_loop.simps [of theInt])
  next
    case False
    then have "display_loop theInt rs = c # rs"
      using "1.prems" c(1)
      by (simp add: display_loop.simps [of theInt] display_loop.simps [of "bigint_div theInt 10"])
    then show ?thesis using c(2) by simp
  qed
qed

lemma display_not_float_key: "Exact_display e = Str s \<Longrightarrow> \<not> float_key s"
proof -
  assume d: "Exact_display e = Str s"
  show ?thesis
  proof (cases "num e = 0")
    case True
    with d show ?thesis by (auto simp: Exact_display_def float_key_def split: if_splits)
  next
    case False
    show ?thesis
    proof (cases "num e < 0")
      case True
      with d False show ?thesis
        by (auto simp: Exact_display_def float_key_def Let_def split: if_splits)
    next
      case pos: False
      with False have p: "0 < num e" by simp
      from display_loop_head [OF p, of "[]"] obtain c cs where
        cs: "display_loop (num e) [] = c # cs" "c \<in> set ''0123456789''"
        by (cases "display_loop (num e) []") auto
      from d False pos have "s = c # cs"
        by (auto simp: Exact_display_def Let_def cs(1) split: if_splits)
      moreover have "c \<noteq> CHR ''f''" using cs(2) by auto
      ultimately show ?thesis by (simp add: float_key_def)
    qed
  qed
qed

lemma float_key_float [simp]: "float_key (''float'' @ s)"
  by (simp add: float_key_def)

section \<open>Invariants of the enumeration\<close>

lemma expr_complete_is_complete: "expr_complete t \<Longrightarrow> is_complete t"
  by (cases t) (simp_all add: is_complete_def)

lemma is_complete_Expression2 [simp]:
  "is_complete (Expression2 l operation r) = expr_complete (Expression2 l operation r)"
  by (simp add: is_complete_def)

lemma entry_ok_sound: "entry_ok K t \<Longrightarrow> sound t"
  by (auto simp: entry_ok_def sound_def split: sum.splits verify.splits)

lemma soundE:
  assumes "sound t"
  obtains e where "expr_evaluate t = Inr (Val e)" and "0 < den e" and "root e = 1"
  using assms by (auto simp: sound_def split: sum.splits verify.splits)

lemma entry_okE:
  assumes "entry_ok K t"
  obtains e where "expr_evaluate t = Inr (Val e)" and "0 < den e" and "root e = 1"
    and "Exact_display e = Str K \<or> (Exact_display e = FloatFlag \<and> float_key K)"
  using assms by (auto simp: entry_ok_def split: sum.splits verify.splits display.splits)

lemma evaluate_Expression2:
  assumes "sound l" and "sound r" and "operation \<noteq> Pow"
  shows "expr_evaluate (Expression2 l operation r) = Inr ErrorFlag \<or>
         (\<exists>e. expr_evaluate (Expression2 l operation r) = Inr (Val e) \<and> 0 < den e \<and> root e = 1)"
proof -
  from assms(1) obtain a where a: "expr_evaluate l = Inr (Val a)" "0 < den a" by (rule soundE)
  from assms(2) obtain b where b: "expr_evaluate r = Inr (Val b)" "0 < den b" by (rule soundE)
  show ?thesis
  proof (cases operation)
    case Plus
    with Exact_plus_reduced [OF a(2) b(2)] show ?thesis
      by (auto simp: a b reduced_def)
  next
    case Minus
    with Exact_minus_reduced [OF a(2) b(2)] show ?thesis
      by (auto simp: a b reduced_def)
  next
    case Times
    with Exact_times_reduced [OF a(2) b(2)] show ?thesis
      by (auto simp: a b reduced_def)
  next
    case Over
    show ?thesis
    proof (cases "num b = 0")
      case True
      with Over show ?thesis by (simp add: a b Exact_over_def)
    next
      case False
      with Over Exact_over_reduced [OF a(2) b(2) False] show ?thesis
        by (auto simp: a b reduced_def)
    qed
  next
    case Pow
    with assms(3) show ?thesis by simp
  qed
qed

lemma level_inv_floatCounter [simp]:
  "level_inv known0 (st\<lparr>floatCounter := n\<rparr>) = level_inv known0 st"
  by (simp add: level_inv_def)

lemma level_inv_float:
  assumes "level_inv known0 st" and "entry_ok K t" and "float_key K"
  shows "level_inv known0 (st\<lparr>current := setProp (current st) K t\<rparr>)"
  using assms set_setProp [of "current st" K t]
  by (auto simp: level_inv_def)

lemma level_inv_key:
  assumes "level_inv known0 st" and "entry_ok K t" and "K \<notin> set (knownNumbers st)"
    and "\<not> is_complete t"
  shows "level_inv known0 (st\<lparr>current := setProp (current st) K t\<rparr>)"
  using assms set_setProp [of "current st" K t]
  by (auto simp: level_inv_def)

lemma level_inv_complete:
  assumes "level_inv known0 st" and "entry_ok K t" and "K \<notin> set (knownNumbers st)"
  shows "level_inv known0
    (st\<lparr>current := setProp (current st) K t, knownNumbers := knownNumbers st @ [K]\<rparr>)"
  using assms set_setProp [of "current st" K t]
  by (auto simp: level_inv_def)

lemma level_inv_known:
  assumes "level_inv known0 st"
  shows "level_inv known0 (st\<lparr>knownNumbers := knownNumbers st @ [K]\<rparr>)"
  using assms by (auto simp: level_inv_def)

lemma attempt_inv:
  assumes inv: "level_inv known0 st" and "sound L" and "sound R" and "Operation \<noteq> Pow"
  shows "\<exists>st'. attempt N operations L Operation R st = Inr st' \<and> level_inv known0 st' \<and>
               floatCounter st' = floatCounter st"
proof (cases "expr_end L \<noteq> expr_start R")
  case False
  with inv show ?thesis by (simp add: attempt_def)
next
  case adj: True
  let ?new = "Expression2 L Operation R"
  from evaluate_Expression2 [OF assms(2,3,4)]
  consider "expr_evaluate ?new = Inr ErrorFlag"
    | e where "expr_evaluate ?new = Inr (Val e)" "0 < den e" "root e = 1"
    by blast
  then show ?thesis
  proof cases
    case 1
    with inv adj show ?thesis by (simp add: attempt_def)
  next
    case (2 e)
    show ?thesis
    proof (cases "Exact_display e")
      case FloatFlag
      have ok: "entry_ok (''float'' @ Number_toString (floatCounter st)) ?new"
        unfolding entry_ok_def using 2 FloatFlag
        by (simp add: float_key_def del: expr_evaluate.simps)
      have fk: "float_key (''float'' @ Number_toString (floatCounter st))"
        by (simp add: float_key_def)
      show ?thesis
        using adj 2 FloatFlag inv level_inv_float [OF inv ok fk]
        by (simp add: attempt_def Let_def del: expr_evaluate.simps)
    next
      case (Str Display)
      have ok: "entry_ok Display ?new"
        unfolding entry_ok_def using 2 Str by (simp del: expr_evaluate.simps)
      show ?thesis
      proof (cases "Display \<notin> set (knownNumbers st) \<and> length Display < 20")
        case False
        with adj 2 Str inv show ?thesis
          by (auto simp: attempt_def Let_def simp del: expr_evaluate.simps)
      next
        case True
        then have fresh: "Display \<notin> set (knownNumbers st)" by simp
        show ?thesis
        proof (cases "expr_complete ?new")
          case c: True
          show ?thesis
            using adj 2 Str True c level_inv_complete [OF inv ok fresh]
            by (simp add: attempt_def Let_def del: expr_evaluate.simps expr_complete.simps)
        next
          case c: False
          then have nc: "\<not> is_complete ?new" by simp
          show ?thesis
            using adj 2 Str True c inv level_inv_key [OF inv ok fresh nc]
            by (simp add: attempt_def Let_def del: expr_evaluate.simps expr_complete.simps)
        qed
      qed
    qed
  qed
qed

lemma operation_loop_inv:
  assumes "level_inv known0 st" and "sound L" and "sound R" and "Pow \<notin> set ops"
  shows "\<exists>st'. operation_loop N operations ign L R ops st = Inr st' \<and> level_inv known0 st'"
  using assms(1,4)
proof (induction ops arbitrary: st)
  case Nil
  then show ?case by simp
next
  case (Cons Operation rest)
  then have np: "Operation \<noteq> Pow" by auto
  from attempt_inv [OF Cons.prems(1) assms(2,3) np, of N operations]
  obtain st1 where st1: "attempt N operations L Operation R st = Inr st1" "level_inv known0 st1"
    by blast
  have "level_inv known0 (st1\<lparr>floatCounter := floatCounter st1 + 1\<rparr>)"
    using st1(2) by simp
  from Cons.IH [OF this] Cons.prems(2)
  obtain st2 where "operation_loop N operations ign L R rest
      (st1\<lparr>floatCounter := floatCounter st1 + 1\<rparr>) = Inr st2" "level_inv known0 st2"
    by auto
  with st1(1) Cons.prems(1) show ?case by auto
qed

lemma for_each_inv:
  assumes "P st" and "\<And>x s. x \<in> set xs \<Longrightarrow> P s \<Longrightarrow> \<exists>s'. body x s = Inr s' \<and> P s'"
  shows "\<exists>s'. for_each body xs st = Inr s' \<and> P s'"
  using assms
proof (induction xs arbitrary: st)
  case Nil
  then show ?case by simp
next
  case (Cons x xs)
  from Cons.prems(2) [of x st] Cons.prems(1)
  obtain s1 where s1: "body x st = Inr s1" "P s1" by auto
  from Cons.IH [OF s1(2)] Cons.prems(2)
  obtain s2 where "for_each body xs s1 = Inr s2" "P s2" by auto
  with s1(1) show ?case by auto
qed

lemma for_each_snoc:
  "for_each body (xs @ [x]) st =
     (case for_each body xs st of Inl e \<Rightarrow> Inl e | Inr s \<Rightarrow> body x s)"
  by (induction xs arbitrary: st) (auto split: sum.splits)

lemma OperationList_eq: "OperationList = [Plus, Minus, Times, Over]"
  by (simp add: OperationList_def)

lemma composition_step_inv:
  assumes "level_inv known0 st"
    and "fst composition < length List" and "snd composition < length List"
    and "\<And>k K t. k < length List \<Longrightarrow> (K, t) \<in> set (List ! k) \<Longrightarrow> sound t"
  shows "\<exists>st'. composition_step N operations List composition st = Inr st' \<and>
               level_inv known0 st'"
proof -
  let ?ign = "fst composition < snd composition"
  let ?inner = "\<lambda>LeftEntry. for_each
      (\<lambda>RightEntry. operation_loop N operations ?ign (snd LeftEntry) (snd RightEntry) OperationList)
      (List ! snd composition)"
  have np: "Pow \<notin> set OperationList" by (simp add: OperationList_eq)
  have inner: "\<exists>s'. ?inner x s = Inr s' \<and> level_inv known0 s'"
    if x: "x \<in> set (List ! fst composition)" and s: "level_inv known0 s" for x s
  proof (rule for_each_inv [where P = "level_inv known0", OF s])
    fix y s1
    assume y: "y \<in> set (List ! snd composition)" and s1: "level_inv known0 s1"
    have "sound (snd x)" using assms(4) [OF assms(2), of "fst x" "snd x"] x by simp
    moreover have "sound (snd y)" using assms(4) [OF assms(3), of "fst y" "snd y"] y by simp
    ultimately show "\<exists>s'. operation_loop N operations ?ign (snd x) (snd y) OperationList s1 = Inr s'
        \<and> level_inv known0 s'"
      using operation_loop_inv [OF s1 _ _ np] by blast
  qed
  have "level_inv known0 (st\<lparr>floatCounter := 0\<rparr>)" using assms(1) by simp
  from for_each_inv [where P = "level_inv known0" and body = ?inner, OF this inner]
  obtain st' where "for_each ?inner (List ! fst composition) (st\<lparr>floatCounter := 0\<rparr>) = Inr st'"
    "level_inv known0 st'" by blast
  then show ?thesis
    using assms(2,3) by (simp add: composition_step_def Let_def)
qed

lemma List0_eq:
  "List0 = [(''6'', Atom2 6), (''9'', Atom2 9), (''69'', Atom2 69),
            (''-6'', Atom2 (- 6)), (''-9'', Atom2 (- 9)), (''-69'', Atom2 (- 69))]"
  by code_simp

lemma List0_entries:
  "\<forall>(K, t) \<in> set List0. entry_ok K t \<and> (is_complete t \<longrightarrow> K \<in> set [''69'', ''-69''])"
  by code_simp

lemma List_inv_initial: "List_inv [List0] [''69'', ''-69'']"
  using List0_entries by (auto simp: List_inv_def)

lemma compositionPair_bound:
  "c \<in> set (compositionPair Num) \<Longrightarrow> fst c \<le> Num \<and> snd c \<le> Num"
  by (auto simp: compositionPair_def)

lemma List_inv_snoc:
  assumes L: "List_inv List known" and st: "level_inv known st"
  shows "List_inv (List @ [current st]) (knownNumbers st)"
proof -
  have sub: "set known \<subseteq> set (knownNumbers st)"
    using st by (simp add: level_inv_def)
  have new: "entry_ok K t" "\<not> float_key K \<Longrightarrow> K \<notin> set known"
    "\<not> float_key K \<Longrightarrow> is_complete t \<Longrightarrow> K \<in> set (knownNumbers st)"
    if "(K, t) \<in> set (current st)" for K t
    using st that by (auto simp: level_inv_def)
  have old: "entry_ok K t" "\<not> float_key K \<Longrightarrow> is_complete t \<Longrightarrow> K \<in> set known"
    "\<not> float_key K \<Longrightarrow> 0 < k \<Longrightarrow> K \<noteq> ''69'' \<and> K \<noteq> ''-69''"
    if "k < length List" "(K, t) \<in> set (List ! k)" for k K t
    using L that unfolding List_inv_def by blast+
  have old2: "K \<notin> fst ` set (List ! k')"
    if "k' < length List" "k < k'" "(K, t) \<in> set (List ! k)" "\<not> float_key K" "is_complete t"
    for k k' K t
    using L that unfolding List_inv_def by blast
  have base: "List \<noteq> []" "List ! 0 = List0" "''69'' \<in> set known" "''-69'' \<in> set known"
    using L by (simp_all add: List_inv_def)
  let ?L = "List @ [current st]"
  have a: "?L \<noteq> []" "?L ! 0 = List0" "''69'' \<in> set (knownNumbers st)"
    "''-69'' \<in> set (knownNumbers st)"
    using base sub by (auto simp: nth_append)
  have b: "entry_ok K t \<and>
          (\<not> float_key K \<longrightarrow>
             (is_complete t \<longrightarrow> K \<in> set (knownNumbers st)) \<and> (0 < k \<longrightarrow> K \<noteq> ''69'' \<and> K \<noteq> ''-69''))"
    if k: "k < length ?L" and m: "(K, t) \<in> set (?L ! k)" for k K t
  proof (cases "k < length List")
    case True
    then have "(K, t) \<in> set (List ! k)" using m by (simp add: nth_append)
    from old [OF True this] sub show ?thesis by blast
  next
    case False
    then have "k = length List" using k by simp
    then have "(K, t) \<in> set (current st)" using m by simp
    from new [OF this] base(3,4) show ?thesis by blast
  qed
  have c: "K \<notin> fst ` set (?L ! k')"
    if k': "k' < length ?L" and k: "k < k'" and m: "(K, t) \<in> set (?L ! k)"
      and nf: "\<not> float_key K" and comp: "is_complete t" for k k' K t
  proof (cases "k' < length List")
    case True
    then have "(K, t) \<in> set (List ! k)" using m k by (simp add: nth_append)
    from old2 [OF True k this nf comp] True show ?thesis by (simp add: nth_append)
  next
    case False
    then have e: "k' = length List" using k' by simp
    then have kl: "k < length List" using k by simp
    then have "(K, t) \<in> set (List ! k)" using m by (simp add: nth_append)
    from old(2) [OF kl this nf comp] have "K \<in> set known" .
    then have "K \<notin> fst ` set (current st)" using new(2) nf by force
    then show ?thesis using e by simp
  qed
  show ?thesis
    unfolding List_inv_def using a b c by blast
qed

lemma level_step_inv:
  assumes L: "List_inv List known" and len: "length List = operations"
  shows "\<exists>tbl known'. level_step N operations (List, known) = Inr (List @ [tbl], known') \<and>
           List_inv (List @ [tbl]) known'"
proof -
  let ?st0 = "\<lparr>current = [], knownNumbers = known, floatCounter = 0\<rparr>"
  have "List \<noteq> []" using L by (simp add: List_inv_def)
  then have pos: "0 < operations" using len by (cases List) auto
  have st0: "level_inv known ?st0" by (simp add: level_inv_def)
  have snd: "sound t" if "k < length List" "(K, t) \<in> set (List ! k)" for k K t
  proof -
    from L have "\<forall>k < length List. \<forall>(K, t) \<in> set (List ! k). entry_ok K t"
      unfolding List_inv_def by fast
    with that have "entry_ok K t" by fast
    then show ?thesis by (rule entry_ok_sound)
  qed
  have step: "\<exists>s'. composition_step N operations List c s = Inr s' \<and> level_inv known s'"
    if c: "c \<in> set (compositionPair (operations - 1))" and s: "level_inv known s" for c s
  proof -
    from compositionPair_bound [OF c] pos len
    have "fst c < length List" "snd c < length List" by arith+
    then show ?thesis
      by (intro composition_step_inv [OF s]) (auto intro: snd)
  qed
  have "\<exists>s'. for_each (composition_step N operations List)
      (compositionPair (operations - 1)) ?st0 = Inr s' \<and> level_inv known s'"
  proof (rule for_each_inv [where P = "level_inv known", OF st0])
    fix x s
    assume "x \<in> set (compositionPair (operations - 1))" and "level_inv known s"
    then show "\<exists>s'. composition_step N operations List x s = Inr s' \<and> level_inv known s'"
      by (rule step)
  qed
  then obtain st where st: "for_each (composition_step N operations List)
      (compositionPair (operations - 1)) ?st0 = Inr st" "level_inv known st"
    by blast
  from List_inv_snoc [OF L st(2)] st(1) show ?thesis
    by (simp add: level_step_def)
qed

lemma levels_inv:
  "\<exists>List known. for_each (level_step N) [1..<Suc M] ([List0], [''69'', ''-69'']) = Inr (List, known)
     \<and> List_inv List known \<and> length List = Suc M"
proof (induction M)
  case 0
  show ?case using List_inv_initial by simp
next
  case (Suc M)
  then obtain List known where
    r: "for_each (level_step N) [1..<Suc M] ([List0], [''69'', ''-69'']) = Inr (List, known)"
    and i: "List_inv List known" and l: "length List = Suc M"
    by blast
  from level_step_inv [OF i l, of N] obtain tbl known' where
    s: "level_step N (Suc M) (List, known) = Inr (List @ [tbl], known')"
    "List_inv (List @ [tbl]) known'" by blast
  have "[1..<Suc (Suc M)] = [1..<Suc M] @ [Suc M]" by simp
  then have "for_each (level_step N) [1..<Suc (Suc M)] ([List0], [''69'', ''-69''])
      = Inr (List @ [tbl], known')"
    using r s(1) by (simp only: for_each_snoc sum.case)
  with s(2) l show ?case by simp
qed

lemma build_List_inv:
  "\<exists>List known. build_List N = Inr (List, known) \<and> List_inv List known \<and> length List = Suc N"
  unfolding build_List_def by (rule levels_inv)

section \<open>Properties of the enumeration\<close>

lemma List_inv_entry:
  assumes "List_inv List known" and "k < length List" and "map_of (List ! k) K = Some t"
  shows "entry_ok K t"
    and "\<not> float_key K \<Longrightarrow> 0 < k \<Longrightarrow> K \<noteq> ''69'' \<and> K \<noteq> ''-69''"
proof -
  have m: "(K, t) \<in> set (List ! k)" using assms(3) by (rule map_of_SomeD)
  from assms(1) have "\<forall>k < length List. \<forall>(K, t) \<in> set (List ! k). entry_ok K t \<and>
      (\<not> float_key K \<longrightarrow> (0 < k \<longrightarrow> K \<noteq> ''69'' \<and> K \<noteq> ''-69''))"
    unfolding List_inv_def by fast
  with assms(2) m show "entry_ok K t"
    and "\<not> float_key K \<Longrightarrow> 0 < k \<Longrightarrow> K \<noteq> ''69'' \<and> K \<noteq> ''-69''"
    by fast+
qed

lemma List_inv_settled:
  assumes "List_inv List known" and "k' < length List" and "k < k'"
    and "map_of (List ! k) K = Some t" and "\<not> float_key K" and "is_complete t"
  shows "K \<notin> fst ` set (List ! k')"
proof -
  have m: "(K, t) \<in> set (List ! k)" using assms(4) by (rule map_of_SomeD)
  from assms(1) have "\<forall>k' < length List. \<forall>k < k'. \<forall>(K, t) \<in> set (List ! k).
      \<not> float_key K \<longrightarrow> is_complete t \<longrightarrow> K \<notin> fst ` set (List ! k')"
    unfolding List_inv_def by fast
  with assms(2,3) m assms(5,6) show ?thesis by fast
qed

lemma entry_ok_key:
  assumes "entry_ok K t" and "expr_evaluate t = Inr (Val e)" and "Exact_display e \<noteq> FloatFlag"
  shows "Exact_display e = Str K" and "\<not> float_key K"
proof -
  from assms show "Exact_display e = Str K"
    by (auto simp: entry_ok_def split: display.splits)
  then show "\<not> float_key K" by (rule display_not_float_key)
qed

text \<open>
  C2. For every budget \<open>N\<close> the run returns its \<open>N + 1\<close> level tables, and once a complete
  term with an integer value \<open>e\<close> is retained at a level \<open>k\<close> (under the key \<open>K\<close>), no later
  level \<open>k'\<close> has an entry under \<open>K\<close>, nor any entry, complete or not, whose term evaluates
  to \<open>e\<close>. Complete is taken as starting on 6 and ending on 9, which the field \<open>complete\<close> of a
  composed term implies.
\<close>

theorem settled_monotonicity:
  "\<exists>List known. build_List N = Inr (List, known) \<and> length List = Suc N \<and>
     (\<forall>k k' K t e. k < k' \<and> k' \<le> N \<and> map_of (List ! k) K = Some t \<and> is_complete t \<and>
          expr_evaluate t = Inr (Val e) \<and> Exact_display e \<noteq> FloatFlag \<longrightarrow>
        map_of (List ! k') K = None \<and>
        (\<forall>K' t'. map_of (List ! k') K' = Some t' \<longrightarrow> expr_evaluate t' \<noteq> Inr (Val e)))"
proof -
  from build_List_inv [of N] obtain List known where
    r: "build_List N = Inr (List, known)" and inv: "List_inv List known"
    and len: "length List = Suc N" by blast
  have "map_of (List ! k') K = None \<and>
        (\<forall>K' t'. map_of (List ! k') K' = Some t' \<longrightarrow> expr_evaluate t' \<noteq> Inr (Val e))"
    if k: "k < k'" and k': "k' \<le> N" and m: "map_of (List ! k) K = Some t" and c: "is_complete t"
      and e: "expr_evaluate t = Inr (Val e)" and d: "Exact_display e \<noteq> FloatFlag"
    for k k' K t e
  proof -
    have kl: "k < length List" and kl': "k' < length List" using k k' len by simp_all
    note key = entry_ok_key [OF List_inv_entry(1) [OF inv kl m] e d]
    have absent: "K \<notin> fst ` set (List ! k')"
      by (rule List_inv_settled [OF inv kl' k m key(2) c])
    then have "map_of (List ! k') K = None"
      by (simp add: map_of_eq_None_iff)
    moreover have "\<forall>K' t'. map_of (List ! k') K' = Some t' \<longrightarrow> expr_evaluate t' \<noteq> Inr (Val e)"
    proof (intro allI impI notI)
      fix K' t'
      assume m': "map_of (List ! k') K' = Some t'"
      assume e': "expr_evaluate t' = Inr (Val e)"
      from entry_ok_key(1) [OF List_inv_entry(1) [OF inv kl' m'] e' d] key(1)
      have "K' = K" by simp
      with m' have "(K, t') \<in> set (List ! k')" by (auto dest: map_of_SomeD)
      then have "fst (K, t') \<in> fst ` set (List ! k')" by (rule imageI)
      with absent show False by simp
    qed
    ultimately show ?thesis by (rule conjI)
  qed
  then have A: "\<forall>k k' K t e. k < k' \<and> k' \<le> N \<and> map_of (List ! k) K = Some t \<and> is_complete t \<and>
          expr_evaluate t = Inr (Val e) \<and> Exact_display e \<noteq> FloatFlag \<longrightarrow>
        map_of (List ! k') K = None \<and>
        (\<forall>K' t'. map_of (List ! k') K' = Some t' \<longrightarrow> expr_evaluate t' \<noteq> Inr (Val e))"
    by fast
  show ?thesis
    by (rule exI [of _ List], rule exI [of _ known]) (intro conjI r len A)
qed

lemma keys_project_fold:
  "fst ` set (foldl (\<lambda>Obj (Num, e). if expr_complete e then setProp Obj Num (expr_display e) else Obj)
      acc level) \<subseteq> fst ` set acc \<union> fst ` set level"
proof (induction level arbitrary: acc)
  case Nil
  show ?case by simp
next
  case (Cons x level)
  obtain Num e where x: "x = (Num, e)" by (cases x)
  define acc' where "acc' = (if expr_complete e then setProp acc Num (expr_display e) else acc)"
  have "set acc' \<subseteq> insert (Num, expr_display e) (set acc)"
    using set_setProp [of acc Num "expr_display e"] by (auto simp: acc'_def)
  then have "fst ` set acc' \<subseteq> insert Num (fst ` set acc)"
    by force
  then have "fst ` set acc' \<union> fst ` set level \<subseteq> fst ` set acc \<union> fst ` set (x # level)"
    by (auto simp: x)
  moreover have "foldl (\<lambda>Obj (Num, e). if expr_complete e then setProp Obj Num (expr_display e) else Obj)
      acc (x # level) = foldl (\<lambda>Obj (Num, e). if expr_complete e then setProp Obj Num (expr_display e) else Obj)
      acc' level"
    by (simp add: x acc'_def)
  ultimately show ?case
    using Cons.IH [of acc'] by (simp only: ) 
qed

lemma keys_project: "fst ` set (project level) \<subseteq> fst ` set level"
  using keys_project_fold [of "[]" level] by (simp add: project_def)

lemma project_List0: "project List0 = []"
  by code_simp

lemma display_sixty_nine:
  "Exact_display (newExact 69) = Str ''69''" "Exact_display (newExact (- 69)) = Str ''-69''"
  by code_simp+

text \<open>
  For every budget the run returns; no level after the first has an entry under the key
  69 or -69, or an entry whose term evaluates to 69 or -69; the projection of level 0 is
  empty, its atoms having no \<open>complete\<close> field; and the projection of no level has one of
  these keys.
\<close>

lemma levels_without_sixty_nine:
  "\<exists>List known. build_List N = Inr (List, known) \<and> length List = Suc N \<and>
     (\<forall>k K t. 0 < k \<and> k \<le> N \<and> map_of (List ! k) K = Some t \<longrightarrow>
        K \<noteq> ''69'' \<and> K \<noteq> ''-69'' \<and>
        expr_evaluate t \<noteq> Inr (Val (newExact 69)) \<and>
        expr_evaluate t \<noteq> Inr (Val (newExact (- 69)))) \<and>
     project (List ! 0) = [] \<and>
     (\<forall>k \<le> N. map_of (project (List ! k)) ''69'' = None \<and>
              map_of (project (List ! k)) ''-69'' = None) \<and>
     (0 < N \<longrightarrow> getExpression_version3 N = Inr (Result (map project List) known))"
proof -
  from build_List_inv [of N] obtain List known where
    r: "build_List N = Inr (List, known)" and inv: "List_inv List known"
    and len: "length List = Suc N" by blast
  have nf: "\<not> float_key ''69''" "\<not> float_key ''-69''" by (simp_all add: float_key_def)
  have a: "K \<noteq> ''69'' \<and> K \<noteq> ''-69'' \<and>
        expr_evaluate t \<noteq> Inr (Val (newExact 69)) \<and>
        expr_evaluate t \<noteq> Inr (Val (newExact (- 69)))"
    if k: "0 < k" "k \<le> N" and m: "map_of (List ! k) K = Some t" for k K t
  proof -
    have kl: "k < length List" using k len by simp
    note ok = List_inv_entry [OF inv kl m]
    have key: "K \<noteq> ''69'' \<and> K \<noteq> ''-69''"
      using ok(2) k(1) nf by (cases "float_key K") auto
    have "expr_evaluate t \<noteq> Inr (Val (newExact 69))"
    proof
      assume "expr_evaluate t = Inr (Val (newExact 69))"
      from entry_ok_key(1) [OF ok(1) this] key show False
        by (simp add: display_sixty_nine)
    qed
    moreover have "expr_evaluate t \<noteq> Inr (Val (newExact (- 69)))"
    proof
      assume "expr_evaluate t = Inr (Val (newExact (- 69)))"
      from entry_ok_key(1) [OF ok(1) this] key show False
        by (simp add: display_sixty_nine)
    qed
    ultimately show ?thesis using key by blast
  qed
  have b: "map_of (project (List ! k)) ''69'' = None \<and> map_of (project (List ! k)) ''-69'' = None"
    if k: "k \<le> N" for k
  proof (cases "k = 0")
    case True
    moreover have "List ! 0 = List0" using inv by (simp add: List_inv_def)
    ultimately show ?thesis by (simp add: project_List0)
  next
    case False
    then have pos: "0 < k" by simp
    have "map_of (List ! k) ''69'' = None"
    proof (cases "map_of (List ! k) ''69''")
      case (Some t)
      from a [OF pos k Some] show ?thesis by simp
    qed simp
    moreover have "map_of (List ! k) ''-69'' = None"
    proof (cases "map_of (List ! k) ''-69''")
      case (Some t)
      from a [OF pos k Some] show ?thesis by simp
    qed simp
    ultimately have "map_of (List ! k) ''69'' = None" "map_of (List ! k) ''-69'' = None"
      by simp_all
    then have "''69'' \<notin> fst ` set (List ! k)" "''-69'' \<notin> fst ` set (List ! k)"
      by (simp_all add: map_of_eq_None_iff)
    with keys_project [of "List ! k"]
    have "''69'' \<notin> fst ` set (project (List ! k))" "''-69'' \<notin> fst ` set (project (List ! k))"
      by blast+
    then show ?thesis by (simp add: map_of_eq_None_iff)
  qed
  have c: "0 < N \<longrightarrow> getExpression_version3 N = Inr (Result (map project List) known)"
    using r by (simp add: getExpression_version3_def)
  have A: "\<forall>k K t. 0 < k \<and> k \<le> N \<and> map_of (List ! k) K = Some t \<longrightarrow>
        K \<noteq> ''69'' \<and> K \<noteq> ''-69'' \<and>
        expr_evaluate t \<noteq> Inr (Val (newExact 69)) \<and>
        expr_evaluate t \<noteq> Inr (Val (newExact (- 69)))"
  proof (intro allI impI)
    fix k K t
    assume "0 < k \<and> k \<le> N \<and> map_of (List ! k) K = Some t"
    then have "0 < k" "k \<le> N" "map_of (List ! k) K = Some t" by simp_all
    then show "K \<noteq> ''69'' \<and> K \<noteq> ''-69'' \<and>
        expr_evaluate t \<noteq> Inr (Val (newExact 69)) \<and>
        expr_evaluate t \<noteq> Inr (Val (newExact (- 69)))"
      by (rule a)
  qed
  have B: "\<forall>k \<le> N. map_of (project (List ! k)) ''69'' = None \<and>
              map_of (project (List ! k)) ''-69'' = None"
    using b by (intro allI impI)
  have z: "project (List ! 0) = []"
    using inv by (simp add: List_inv_def project_List0)
  show ?thesis
    by (rule exI [of _ List], rule exI [of _ known]) (intro conjI r len A z B c)
qed

text \<open>
  C10, as stated, fails: for the budget 0 the function returns the raw table of level 0
  without projecting it, and that table holds the atoms under the keys 69 and -69.
\<close>

theorem budget_zero_returns_atoms:
  "getExpression_version3 0 = Inr (RawList [List0]) \<and>
   map_of List0 ''69'' = Some (Atom2 69) \<and> map_of List0 ''-69'' = Some (Atom2 (- 69))"
  by (simp add: getExpression_version3_def List0_eq)

text \<open>
  C10, amended. For every budget \<open>N\<close> of at least 1 the function returns the projections of
  its \<open>N + 1\<close> level tables, and the keys 69 and -69 are in none of them:
  \<open>knownNumbers\<close> holds both from the start, so no level after the first has an entry under
  these keys, or an entry whose term evaluates to 69 or -69, and the projection of level
  0 is empty, its atoms having no \<open>complete\<close> field.
\<close>

theorem sixty_nine_never_in_output:
  assumes "0 < N"
  shows "\<exists>List known. build_List N = Inr (List, known) \<and> length List = Suc N \<and>
     getExpression_version3 N = Inr (Result (map project List) known) \<and>
     (\<forall>k K t. 0 < k \<and> k \<le> N \<and> map_of (List ! k) K = Some t \<longrightarrow>
        K \<noteq> ''69'' \<and> K \<noteq> ''-69'' \<and>
        expr_evaluate t \<noteq> Inr (Val (newExact 69)) \<and>
        expr_evaluate t \<noteq> Inr (Val (newExact (- 69)))) \<and>
     map project List ! 0 = [] \<and>
     (\<forall>k \<le> N. map_of (map project List ! k) ''69'' = None \<and>
              map_of (map project List ! k) ''-69'' = None)"
proof -
  from levels_without_sixty_nine [of N] obtain List known where
    r: "build_List N = Inr (List, known)" and len: "length List = Suc N"
    and A: "\<forall>k K t. 0 < k \<and> k \<le> N \<and> map_of (List ! k) K = Some t \<longrightarrow>
        K \<noteq> ''69'' \<and> K \<noteq> ''-69'' \<and>
        expr_evaluate t \<noteq> Inr (Val (newExact 69)) \<and>
        expr_evaluate t \<noteq> Inr (Val (newExact (- 69)))"
    and z: "project (List ! 0) = []"
    and B: "\<forall>k \<le> N. map_of (project (List ! k)) ''69'' = None \<and>
              map_of (project (List ! k)) ''-69'' = None"
    and c: "0 < N \<longrightarrow> getExpression_version3 N = Inr (Result (map project List) known)"
    by blast
  have ret: "getExpression_version3 N = Inr (Result (map project List) known)"
    using c assms by simp
  have z': "map project List ! 0 = []"
    using z len by (simp add: nth_map)
  have B': "\<forall>k \<le> N. map_of (map project List ! k) ''69'' = None \<and>
              map_of (map project List ! k) ''-69'' = None"
  proof (intro allI impI)
    fix k
    assume k: "k \<le> N"
    then have "map project List ! k = project (List ! k)"
      using len by (simp add: nth_map)
    with B k show "map_of (map project List ! k) ''69'' = None \<and>
              map_of (map project List ! k) ''-69'' = None"
      by simp
  qed
  show ?thesis
    by (rule exI [of _ List], rule exI [of _ known]) (intro conjI r len ret A z' B')
qed

section \<open>The guard on the length of a key, and the pruned direction\<close>

lemma attempt_integer:
  assumes "expr_end L \<noteq> expr_start R"
    and "expr_evaluate (Expression2 L Operation R) = Inr (Val v)"
    and "Exact_display v = Str Display"
  shows "attempt N operations L Operation R st =
     Inr (if Display \<notin> set (knownNumbers st) \<and> length Display < 20 then
            (let st1 = (if expr_complete (Expression2 L Operation R) \<or> operations < N
                        then st\<lparr>current := setProp (current st) Display (Expression2 L Operation R)\<rparr>
                        else st)
             in if expr_complete (Expression2 L Operation R)
                then st1\<lparr>knownNumbers := knownNumbers st1 @ [Display]\<rparr> else st1)
          else st)"
  using assms by (simp add: attempt_def Let_def del: expr_evaluate.simps expr_complete.simps)

text \<open>
  C8, amended. An integer result whose decimal key has 20 characters or more is discarded
  whatever its completeness: the state is left as it was. An integer result whose key has
  at most 19 characters, is not yet known and is complete (or belongs to a level before
  the last) is retained under its key.
\<close>

theorem key_length_guard:
  assumes "expr_end L \<noteq> expr_start R"
    and "expr_evaluate (Expression2 L Operation R) = Inr (Val v)"
    and "Exact_display v = Str Display"
  shows "\<exists>st'. attempt N operations L Operation R st = Inr st' \<and>
           (20 \<le> length Display \<longrightarrow> st' = st) \<and>
           (length Display < 20 \<and> Display \<notin> set (knownNumbers st) \<and>
              (expr_complete (Expression2 L Operation R) \<or> operations < N) \<longrightarrow>
            map_of (current st') Display = Some (Expression2 L Operation R))"
  unfolding attempt_integer [OF assms]
  by (auto simp: Let_def map_of_setProp simp del: expr_complete.simps)

text \<open>
  C8, as stated, fails: \<open>69^9 * -69\<close> is a complete term of 9 operations whose key
  \<open>-2446194060654759801\<close> has exactly 20 characters and is not known; with budget 9 the
  attempt leaves the level table empty.
\<close>

theorem twenty_character_key_discarded:
  "expr_end T9 \<noteq> expr_start (Atom2 (- 69)) \<and>
   expr_evaluate (Expression2 T9 Times (Atom2 (- 69))) = Inr (Val (newExact (- 2446194060654759801))) \<and>
   Exact_display (newExact (- 2446194060654759801)) = Str ''-2446194060654759801'' \<and>
   length ''-2446194060654759801'' = 20 \<and>
   expr_complete (Expression2 T9 Times (Atom2 (- 69))) \<and>
   attempt 9 9 T9 Times (Atom2 (- 69))
     \<lparr>current = [], knownNumbers = [''69'', ''-69''], floatCounter = 0\<rparr>
   = Inr \<lparr>current = [], knownNumbers = [''69'', ''-69''], floatCounter = 0\<rparr>"
  by code_simp

theorem key_length_guard_witness:
  "expr_end T9 \<noteq> expr_start (Atom2 (- 69)) \<and>
   expr_evaluate (Expression2 T9 Times (Atom2 (- 69))) = Inr (Val (newExact (- 2446194060654759801))) \<and>
   Exact_display (newExact (- 2446194060654759801)) = Str ''-2446194060654759801'' \<and>
   20 \<le> length ''-2446194060654759801'' \<and>
   attempt 9 9 T9 Times (Atom2 (- 69))
     \<lparr>current = [], knownNumbers = [''69'', ''-69''], floatCounter = 0\<rparr>
   = Inr \<lparr>current = [], knownNumbers = [''69'', ''-69''], floatCounter = 0\<rparr> \<and>
   expr_end T9 \<noteq> expr_start (Atom2 69) \<and>
   expr_evaluate (Expression2 T9 Times (Atom2 69)) = Inr (Val (newExact 2446194060654759801)) \<and>
   Exact_display (newExact 2446194060654759801) = Str ''2446194060654759801'' \<and>
   length ''2446194060654759801'' < 20 \<and>
   ''2446194060654759801'' \<notin> set [''69'', ''-69''] \<and>
   expr_complete (Expression2 T9 Times (Atom2 69)) \<and>
   (\<exists>st'. attempt 9 9 T9 Times (Atom2 69)
       \<lparr>current = [], knownNumbers = [''69'', ''-69''], floatCounter = 0\<rparr> = Inr st' \<and>
     map_of (current st') ''2446194060654759801'' = Some (Expression2 T9 Times (Atom2 69)))"
proof -
  let ?st = "\<lparr>current = [], knownNumbers = [''69'', ''-69''], floatCounter = 0\<rparr>"
  have a1: "expr_end T9 \<noteq> expr_start (Atom2 (- 69))" by code_simp
  have e1: "expr_evaluate (Expression2 T9 Times (Atom2 (- 69)))
      = Inr (Val (newExact (- 2446194060654759801)))" by code_simp
  have d1: "Exact_display (newExact (- 2446194060654759801)) = Str ''-2446194060654759801''"
    by code_simp
  have a2: "expr_end T9 \<noteq> expr_start (Atom2 69)" by code_simp
  have e2: "expr_evaluate (Expression2 T9 Times (Atom2 69))
      = Inr (Val (newExact 2446194060654759801))" by code_simp
  have d2: "Exact_display (newExact 2446194060654759801) = Str ''2446194060654759801''"
    by code_simp
  have c2: "expr_complete (Expression2 T9 Times (Atom2 69))" by code_simp
  from key_length_guard [OF a1 e1 d1, of 9 9 ?st]
  have r1: "attempt 9 9 T9 Times (Atom2 (- 69)) ?st = Inr ?st" by auto
  from key_length_guard [OF a2 e2 d2, of 9 9 ?st] c2
  have r2: "\<exists>st'. attempt 9 9 T9 Times (Atom2 69) ?st = Inr st' \<and>
     map_of (current st') ''2446194060654759801'' = Some (Expression2 T9 Times (Atom2 69))"
    by auto
  show ?thesis
    by (intro conjI a1 e1 d1 r1 a2 e2 d2 c2 r2) simp_all
qed

lemma for_each_skip:
  "(\<And>x s. x \<in> set xs \<Longrightarrow> body x s = Inr s) \<Longrightarrow> for_each body xs st = Inr st"
  by (induction xs arbitrary: st) simp_all

lemma operation_loop_pruned:
  "operation_loop N operations True LeftExpression RightExpression OperationList st = Inr st"
  by (simp add: OperationList_eq)

lemma composition_step_pruned:
  assumes "fst composition < snd composition" and "snd composition < length List"
  shows "composition_step N operations List composition st = Inr (st\<lparr>floatCounter := 0\<rparr>)"
proof -
  have "for_each (\<lambda>LeftEntry. for_each
          (\<lambda>RightEntry. operation_loop N operations True (snd LeftEntry) (snd RightEntry)
             OperationList) (List ! snd composition))
        (List ! fst composition) (st\<lparr>floatCounter := 0\<rparr>) = Inr (st\<lparr>floatCounter := 0\<rparr>)"
    by (intro for_each_skip operation_loop_pruned)
  with assms show ?thesis by (simp add: composition_step_def Let_def)
qed

section \<open>The run with budget 2\<close>

text \<open>
  The run with budget 2, evaluated: the six atoms, the 41 entries of level 1 (complete or
  not, floats included, since a later level exists) and the 40 complete entries of
  level 2, with the final \<open>knownNumbers\<close>.
\<close>

lemma build_List_2:
  "build_List 2 =
     Inr ([[(''6'', Atom2 6), (''9'', Atom2 9), (''69'', Atom2 69),
     (''-6'', Atom2 (- 6)), (''-9'', Atom2 (- 9)),
     (''-69'', Atom2 (- 69))],
     [(''0'', Expression2 (Atom2 69) Minus (Atom2 69)),
     (''1'', Expression2 (Atom2 69) Over (Atom2 69)),
     (''3'', Expression2 (Atom2 (- 6)) Plus (Atom2 9)),
     (''15'', Expression2 (Atom2 6) Plus (Atom2 9)),
     (''54'', Expression2 (Atom2 6) Times (Atom2 9)),
     (''60'', Expression2 (Atom2 (- 9)) Minus (Atom2 (- 69))),
     (''63'', Expression2 (Atom2 69) Plus (Atom2 (- 6))),
     (''75'', Expression2 (Atom2 69) Minus (Atom2 (- 6))),
     (''78'', Expression2 (Atom2 9) Minus (Atom2 (- 69))),
     (''138'', Expression2 (Atom2 69) Plus (Atom2 69)),
     (''414'', Expression2 (Atom2 (- 69)) Times (Atom2 (- 6))),
     (''621'', Expression2 (Atom2 (- 9)) Times (Atom2 (- 69))),
     (''4761'', Expression2 (Atom2 69) Times (Atom2 69)),
     (''-3'', Expression2 (Atom2 6) Minus (Atom2 9)),
     (''float7'', Expression2 (Atom2 6) Over (Atom2 9)),
     (''-54'', Expression2 (Atom2 6) Times (Atom2 (- 9))),
     (''float19'', Expression2 (Atom2 6) Over (Atom2 (- 9))),
     (''float27'', Expression2 (Atom2 9) Over (Atom2 6)),
     (''-60'', Expression2 (Atom2 9) Plus (Atom2 (- 69))),
     (''float35'', Expression2 (Atom2 9) Over (Atom2 69)),
     (''float39'', Expression2 (Atom2 9) Over (Atom2 (- 6))),
     (''-621'', Expression2 (Atom2 (- 9)) Times (Atom2 69)),
     (''float47'', Expression2 (Atom2 9) Over (Atom2 (- 69))),
     (''float51'', Expression2 (Atom2 69) Over (Atom2 6)),
     (''-414'', Expression2 (Atom2 (- 69)) Times (Atom2 6)),
     (''float63'', Expression2 (Atom2 69) Over (Atom2 (- 6))),
     (''-4761'', Expression2 (Atom2 69) Times (Atom2 (- 69))),
     (''-1'', Expression2 (Atom2 69) Over (Atom2 (- 69))),
     (''-15'', Expression2 (Atom2 (- 6)) Minus (Atom2 9)),
     (''float79'', Expression2 (Atom2 (- 6)) Over (Atom2 9)),
     (''float91'', Expression2 (Atom2 (- 6)) Over (Atom2 (- 9))),
     (''float99'', Expression2 (Atom2 (- 9)) Over (Atom2 6)),
     (''-78'', Expression2 (Atom2 (- 9)) Plus (Atom2 (- 69))),
     (''float107'', Expression2 (Atom2 (- 9)) Over (Atom2 69)),
     (''float111'', Expression2 (Atom2 (- 9)) Over (Atom2 (- 6))),
     (''float119'', Expression2 (Atom2 (- 9)) Over (Atom2 (- 69))),
     (''-63'', Expression2 (Atom2 (- 69)) Minus (Atom2 (- 6))),
     (''-75'', Expression2 (Atom2 (- 69)) Plus (Atom2 (- 6))),
     (''float123'', Expression2 (Atom2 (- 69)) Over (Atom2 6)),
     (''-138'', Expression2 (Atom2 (- 69)) Minus (Atom2 69)),
     (''float135'', Expression2 (Atom2 (- 69)) Over (Atom2 (- 6)))],
     [(''2'',
     Expression2 (Expression2 (Atom2 69) Plus (Atom2 69)) Over
     (Atom2 69)),
     (''7'',
     Expression2 (Expression2 (Atom2 69) Plus (Atom2 (- 6))) Over
     (Atom2 9)),
     (''46'',
     Expression2 (Expression2 (Atom2 (- 69)) Times (Atom2 (- 6))) Over
     (Atom2 9)),
     (''66'',
     Expression2 (Expression2 (Atom2 69) Minus (Atom2 (- 6))) Minus
     (Atom2 9)),
     (''68'',
     Expression2 (Expression2 (Atom2 69) Over (Atom2 (- 69))) Plus
     (Atom2 69)),
     (''70'',
     Expression2 (Expression2 (Atom2 69) Over (Atom2 69)) Plus
     (Atom2 69)),
     (''72'',
     Expression2 (Expression2 (Atom2 (- 6)) Plus (Atom2 9)) Plus
     (Atom2 69)),
     (''84'',
     Expression2 (Expression2 (Atom2 6) Plus (Atom2 9)) Plus
     (Atom2 69)),
     (''123'',
     Expression2 (Expression2 (Atom2 6) Times (Atom2 9)) Plus
     (Atom2 69)),
     (''207'',
     Expression2 (Expression2 (Atom2 (- 6)) Plus (Atom2 9)) Times
     (Atom2 69)),
     (''405'',
     Expression2 (Expression2 (Atom2 (- 69)) Times (Atom2 (- 6))) Minus
     (Atom2 9)),
     (''423'',
     Expression2 (Expression2 (Atom2 (- 69)) Times (Atom2 (- 6))) Plus
     (Atom2 9)),
     (''567'',
     Expression2 (Expression2 (Atom2 69) Plus (Atom2 (- 6))) Times
     (Atom2 9)),
     (''675'',
     Expression2 (Expression2 (Atom2 69) Minus (Atom2 (- 6))) Times
     (Atom2 9)),
     (''1035'',
     Expression2 (Expression2 (Atom2 6) Plus (Atom2 9)) Times
     (Atom2 69)),
     (''3726'',
     Expression2 (Expression2 (Atom2 6) Times (Atom2 9)) Times
     (Atom2 69)),
     (''4692'',
     Expression2 (Expression2 (Atom2 69) Times (Atom2 69)) Minus
     (Atom2 69)),
     (''4830'',
     Expression2 (Expression2 (Atom2 69) Times (Atom2 69)) Plus
     (Atom2 69)),
     (''9522'',
     Expression2 (Expression2 (Atom2 69) Plus (Atom2 69)) Times
     (Atom2 69)),
     (''328509'',
     Expression2 (Expression2 (Atom2 69) Times (Atom2 69)) Times
     (Atom2 69)),
     (''-68'',
     Expression2 (Expression2 (Atom2 69) Over (Atom2 69)) Minus
     (Atom2 69)),
     (''-66'',
     Expression2 (Expression2 (Atom2 (- 6)) Plus (Atom2 9)) Minus
     (Atom2 69)),
     (''-207'',
     Expression2 (Expression2 (Atom2 (- 6)) Plus (Atom2 9)) Times
     (Atom2 (- 69))),
     (''-1035'',
     Expression2 (Expression2 (Atom2 6) Plus (Atom2 9)) Times
     (Atom2 (- 69))),
     (''-3726'',
     Expression2 (Expression2 (Atom2 6) Times (Atom2 9)) Times
     (Atom2 (- 69))),
     (''-567'',
     Expression2 (Expression2 (Atom2 69) Plus (Atom2 (- 6))) Times
     (Atom2 (- 9))),
     (''-7'',
     Expression2 (Expression2 (Atom2 69) Plus (Atom2 (- 6))) Over
     (Atom2 (- 9))),
     (''-675'',
     Expression2 (Expression2 (Atom2 69) Minus (Atom2 (- 6))) Times
     (Atom2 (- 9))),
     (''-9522'',
     Expression2 (Expression2 (Atom2 69) Plus (Atom2 69)) Times
     (Atom2 (- 69))),
     (''-2'',
     Expression2 (Expression2 (Atom2 69) Plus (Atom2 69)) Over
     (Atom2 (- 69))),
     (''-46'',
     Expression2 (Expression2 (Atom2 (- 69)) Times (Atom2 (- 6))) Over
     (Atom2 (- 9))),
     (''-328509'',
     Expression2 (Expression2 (Atom2 69) Times (Atom2 69)) Times
     (Atom2 (- 69))),
     (''-72'',
     Expression2 (Expression2 (Atom2 6) Minus (Atom2 9)) Minus
     (Atom2 69)),
     (''-123'',
     Expression2 (Expression2 (Atom2 6) Times (Atom2 (- 9))) Minus
     (Atom2 69)),
     (''-405'',
     Expression2 (Expression2 (Atom2 (- 69)) Times (Atom2 6)) Plus
     (Atom2 9)),
     (''-423'',
     Expression2 (Expression2 (Atom2 (- 69)) Times (Atom2 6)) Minus
     (Atom2 9)),
     (''-4692'',
     Expression2 (Expression2 (Atom2 69) Times (Atom2 (- 69))) Plus
     (Atom2 69)),
     (''-4830'',
     Expression2 (Expression2 (Atom2 69) Times (Atom2 (- 69))) Minus
     (Atom2 69)),
     (''-70'',
     Expression2 (Expression2 (Atom2 69) Over (Atom2 (- 69))) Minus
     (Atom2 69)),
     (''-84'',
     Expression2 (Expression2 (Atom2 (- 6)) Minus (Atom2 9)) Minus
     (Atom2 69))]],
     [''69'', ''-69'', ''15'', ''-3'', ''54'', ''-54'', ''138'', ''0'',
     ''4761'', ''1'', ''-4761'', ''-1'', ''3'', ''-15'', ''-138'', ''70'',
     ''-68'', ''72'', ''-66'', ''207'', ''-207'', ''84'', ''1035'',
     ''-1035'', ''123'', ''3726'', ''-3726'', ''567'', ''7'', ''-567'',
     ''-7'', ''66'', ''675'', ''-675'', ''9522'', ''2'', ''-9522'',
     ''-2'', ''423'', ''405'', ''46'', ''-46'', ''4830'', ''4692'',
     ''328509'', ''-328509'', ''-72'', ''-123'', ''-405'', ''-423'',
     ''-4692'', ''-4830'', ''68'', ''-70'', ''-84''])"
  by code_simp

section \<open>Every term of a level has as many operations as the level\<close>

lemma count_inv_floatCounter [simp]: "count_inv n (st\<lparr>floatCounter := c\<rparr>) = count_inv n st"
  by (simp add: count_inv_def)

lemma count_inv_knownNumbers [simp]: "count_inv n (st\<lparr>knownNumbers := ks\<rparr>) = count_inv n st"
  by (simp add: count_inv_def)

lemma count_inv_setProp:
  "count_inv n st \<Longrightarrow> operation_count t = n \<Longrightarrow>
   count_inv n (st\<lparr>current := setProp (current st) K t\<rparr>)"
  using set_setProp [of "current st" K t] by (auto simp: count_inv_def)

lemma attempt_count:
  assumes "attempt N operations L Operation R st = Inr st'" and "count_inv n st"
    and "Suc (operation_count L + operation_count R) = n"
  shows "count_inv n st'"
proof -
  have new: "operation_count (Expression2 L Operation R) = n" using assms(3) by simp
  note step = count_inv_setProp [OF assms(2) new]
  from assms(1) show ?thesis
    using assms(2) step
    by (auto simp: attempt_def Let_def
        simp del: expr_evaluate.simps expr_complete.simps operation_count.simps
        split: if_splits sum.splits verify.splits display.splits)
qed

lemma operation_loop_count:
  assumes "operation_loop N operations ign L R ops st = Inr st'" and "count_inv n st"
    and "Suc (operation_count L + operation_count R) = n"
  shows "count_inv n st'"
  using assms(1,2)
proof (induction ops arbitrary: st)
  case Nil
  then show ?case by simp
next
  case (Cons Operation rest)
  show ?case
  proof (cases "ign \<and> (Operation = Plus \<or> Operation = Times)")
    case True
    with Cons.prems show ?thesis by simp
  next
    case False
    with Cons.prems(1) obtain st1 where
      a: "attempt N operations L Operation R st = Inr st1"
      and l: "operation_loop N operations ign L R rest (st1\<lparr>floatCounter := floatCounter st1 + 1\<rparr>)
        = Inr st'"
      by (auto split: sum.splits)
    have "count_inv n (st1\<lparr>floatCounter := floatCounter st1 + 1\<rparr>)"
      using attempt_count [OF a Cons.prems(2) assms(3)] by simp
    from Cons.IH [OF l this] show ?thesis .
  qed
qed

lemma for_each_preserves:
  assumes "for_each body xs st = Inr st'" and "P st"
    and "\<And>x s s'. x \<in> set xs \<Longrightarrow> P s \<Longrightarrow> body x s = Inr s' \<Longrightarrow> P s'"
  shows "P st'"
  using assms
proof (induction xs arbitrary: st)
  case Nil
  then show ?case by simp
next
  case (Cons x xs)
  from Cons.prems(1) obtain s1 where
    b: "body x st = Inr s1" and r: "for_each body xs s1 = Inr st'"
    by (auto split: sum.splits)
  have "P s1" using Cons.prems(3) [of x st s1] Cons.prems(2) b by simp
  show ?case
  proof (rule Cons.IH [OF r \<open>P s1\<close>])
    fix y s s'
    assume "y \<in> set xs" and "P s" and "body y s = Inr s'"
    then show "P s'" using Cons.prems(3) [of y s s'] by simp
  qed
qed

lemma composition_step_count:
  assumes "composition_step N operations List composition st = Inr st'" and "count_inv n st"
    and "Suc (fst composition + snd composition) = n"
    and "\<And>k K t. k < length List \<Longrightarrow> (K, t) \<in> set (List ! k) \<Longrightarrow> operation_count t = k"
  shows "count_inv n st'"
proof -
  let ?ign = "fst composition < snd composition"
  define RightNumbers where
    "RightNumbers = (if snd composition < length List then List ! snd composition else [])"
  let ?inner = "\<lambda>LeftEntry. for_each
      (\<lambda>RightEntry. operation_loop N operations ?ign (snd LeftEntry) (snd RightEntry) OperationList)
      RightNumbers"
  from assms(1) have range: "fst composition < length List"
    and run: "for_each ?inner (List ! fst composition) (st\<lparr>floatCounter := 0\<rparr>) = Inr st'"
    by (auto simp: composition_step_def Let_def RightNumbers_def split: if_splits)
  have right: "snd composition < length List \<and> y \<in> set (List ! snd composition)"
    if "y \<in> set RightNumbers" for y
    using that by (auto simp: RightNumbers_def split: if_splits)
  have st0: "count_inv n (st\<lparr>floatCounter := 0\<rparr>)" using assms(2) by simp
  show ?thesis
  proof (rule for_each_preserves [where P = "count_inv n", OF run st0])
    fix x s s'
    assume x: "x \<in> set (List ! fst composition)" and s: "count_inv n s"
      and i: "?inner x s = Inr s'"
    have cx: "operation_count (snd x) = fst composition"
      using assms(4) [OF range, of "fst x" "snd x"] x by simp
    show "count_inv n s'"
    proof (rule for_each_preserves [where P = "count_inv n", OF i s])
      fix y s1 s2
      assume y: "y \<in> set RightNumbers" and s1: "count_inv n s1"
        and o: "operation_loop N operations ?ign (snd x) (snd y) OperationList s1 = Inr s2"
      from right [OF y] have r2: "snd composition < length List"
        and y': "y \<in> set (List ! snd composition)" by simp_all
      have cy: "operation_count (snd y) = snd composition"
        using assms(4) [OF r2, of "fst y" "snd y"] y' by simp
      show "count_inv n s2"
        by (rule operation_loop_count [OF o s1]) (simp add: cx cy assms(3))
    qed
  qed
qed

lemma compositionPair_sum:
  "c \<in> set (compositionPair Num) \<Longrightarrow> fst c + snd c = Num"
  by (auto simp: compositionPair_def)

lemma level_step_count:
  assumes "level_step N operations (List, known) = Inr (List', known')"
    and "List_count List" and "length List = operations" and "0 < operations"
  shows "List_count List'"
proof -
  let ?st0 = "\<lparr>current = [], knownNumbers = known, floatCounter = 0\<rparr>"
  from assms(1) obtain st where
    run: "for_each (composition_step N operations List) (compositionPair (operations - 1)) ?st0
      = Inr st" and L': "List' = List @ [current st]"
    by (auto simp: level_step_def split: sum.splits)
  have old: "operation_count t = k" if "k < length List" "(K, t) \<in> set (List ! k)" for k K t
    using assms(2) that unfolding List_count_def by fast
  have st0: "count_inv operations ?st0" by (simp add: count_inv_def)
  have "count_inv operations st"
  proof (rule for_each_preserves [where P = "count_inv operations", OF run st0])
    fix c s s'
    assume c: "c \<in> set (compositionPair (operations - 1))" and s: "count_inv operations s"
      and r: "composition_step N operations List c s = Inr s'"
    have "Suc (fst c + snd c) = operations"
      using compositionPair_sum [OF c] assms(4) by simp
    from composition_step_count [OF r s this old] show "count_inv operations s'" .
  qed
  then have new: "operation_count t = operations" if "(K, t) \<in> set (current st)" for K t
    using that unfolding count_inv_def by fast
  have "operation_count t = k" if k: "k < length List'" and m: "(K, t) \<in> set (List' ! k)"
    for k K t
  proof (cases "k < length List")
    case True
    with m have "(K, t) \<in> set (List ! k)" by (simp add: L' nth_append)
    from old [OF True this] show ?thesis .
  next
    case False
    then have e: "k = length List" using k by (simp add: L')
    with m have "(K, t) \<in> set (current st)" by (simp add: L')
    from new [OF this] e assms(3) show ?thesis by simp
  qed
  then show ?thesis unfolding List_count_def by fast
qed

lemma levels_count:
  "for_each (level_step N) [1..<Suc M] ([List0], [''69'', ''-69'']) = Inr (List, known)
   \<Longrightarrow> List_count List \<and> length List = Suc M"
proof (induction M arbitrary: List known)
  case 0
  then show ?case by (auto simp: List_count_def List0_eq)
next
  case (Suc M)
  have "[1..<Suc (Suc M)] = [1..<Suc M] @ [Suc M]" by simp
  with Suc.prems obtain s where
    r: "for_each (level_step N) [1..<Suc M] ([List0], [''69'', ''-69'']) = Inr s"
    and l: "level_step N (Suc M) s = Inr (List, known)"
    by (simp only: for_each_snoc split: sum.splits) auto
  obtain L1 k1 where s: "s = (L1, k1)" by (cases s)
  from Suc.IH [OF r [unfolded s]] have c: "List_count L1" and n: "length L1 = Suc M" by simp_all
  have "List_count List"
    by (rule level_step_count [OF l [unfolded s] c n]) simp
  moreover have "length List = Suc (Suc M)"
    using l n by (auto simp: s level_step_def split: sum.splits)
  ultimately show ?case by simp
qed

lemma build_List_count:
  assumes "build_List N = Inr (List, known)" and "k < length List"
    and "map_of (List ! k) K = Some t"
  shows "operation_count t = k"
proof -
  from levels_count [OF assms(1) [unfolded build_List_def]] have "List_count List" by simp
  moreover have "(K, t) \<in> set (List ! k)" using assms(3) by (rule map_of_SomeD)
  ultimately show ?thesis using assms(2) unfolding List_count_def by fast
qed

section \<open>Observations on the run with budget 2\<close>

lemma level_eq:
  "build_List N = Inr (List, known) \<Longrightarrow> k < length List \<Longrightarrow> level_table N k = List ! k"
  by (simp add: level_table_def)

lemma level_operation_count: "map_of (level_table N k) K = Some t \<Longrightarrow> operation_count t = k"
  by (auto simp: level_table_def build_List_count split: sum.splits if_splits)

lemmas level_2 = level_eq [OF build_List_2]

lemma level_2_1_three:
  "map_of (level_table 2 1) ''3'' = Some (Expression2 (Atom2 (- 6)) Plus (Atom2 9))"
  by (simp add: level_2)

lemma level_2_2_three: "map_of (level_table 2 2) ''3'' = None"
  by (simp add: level_2)

lemma level_2_1_nine: "map_of (level_table 2 1) ''9'' = None"
  by (simp add: level_2)

lemma level_2_2_nine: "map_of (level_table 2 2) ''9'' = None"
  by (simp add: level_2)

lemma level_2_2_twenty_three: "map_of (level_table 2 2) ''23'' = None"
  by (simp add: level_2)

lemma level_2_2_seven:
  "map_of (level_table 2 2) ''7'' =
     Some (Expression2 (Expression2 (Atom2 69) Plus (Atom2 (- 6))) Over (Atom2 9))"
  by (simp add: level_2)

text \<open>
  C3, as stated, fails: in the run with budget 2 the table of level 2 is built (it holds
  7, for one) and has no entry for 9.
\<close>

theorem nine_absent_at_level_two:
  "map_of (level_table 2 2) ''7'' =
     Some (Expression2 (Expression2 (Atom2 69) Plus (Atom2 (- 6))) Over (Atom2 9)) \<and>
   map_of (level_table 2 2) ''9'' = None"
  using level_2_2_seven level_2_2_nine by simp

text \<open>
  C3, amended. In the run with budget 2 the term retained for 3 at level 1 is
  \<open>(-6 + 9)\<close>, and neither level 1 nor level 2 has an entry for 9. The product of that term
  with itself evaluates to 9, is complete and displays as \<open>((-6 + 9) * (-6 + 9))\<close>, but it
  has three operations: whatever the budget, it is no entry of level 2.
\<close>

theorem product_of_three_not_at_level_two:
  "map_of (level_table 2 1) ''3'' = Some (Expression2 (Atom2 (- 6)) Plus (Atom2 9)) \<and>
   map_of (level_table 2 1) ''9'' = None \<and> map_of (level_table 2 2) ''9'' = None \<and>
   expr_evaluate (Expression2 (Expression2 (Atom2 (- 6)) Plus (Atom2 9)) Times
      (Expression2 (Atom2 (- 6)) Plus (Atom2 9))) = Inr (Val (newExact 9)) \<and>
   expr_complete (Expression2 (Expression2 (Atom2 (- 6)) Plus (Atom2 9)) Times
      (Expression2 (Atom2 (- 6)) Plus (Atom2 9))) \<and>
   expr_display (Expression2 (Expression2 (Atom2 (- 6)) Plus (Atom2 9)) Times
      (Expression2 (Atom2 (- 6)) Plus (Atom2 9))) = ''((-6 + 9) * (-6 + 9))'' \<and>
   operation_count (Expression2 (Expression2 (Atom2 (- 6)) Plus (Atom2 9)) Times
      (Expression2 (Atom2 (- 6)) Plus (Atom2 9))) = 3 \<and>
   (\<forall>N K. map_of (level_table N 2) K \<noteq> Some (Expression2 (Expression2 (Atom2 (- 6)) Plus (Atom2 9)) Times
      (Expression2 (Atom2 (- 6)) Plus (Atom2 9))))"
proof -
  let ?p = "Expression2 (Expression2 (Atom2 (- 6)) Plus (Atom2 9)) Times
      (Expression2 (Atom2 (- 6)) Plus (Atom2 9))"
  have e: "expr_evaluate ?p = Inr (Val (newExact 9))" by code_simp
  have c: "expr_complete ?p" by code_simp
  have d: "expr_display ?p = ''((-6 + 9) * (-6 + 9))''" by code_simp
  have n: "operation_count ?p = 3" by simp
  have "map_of (level_table N 2) K \<noteq> Some ?p" for N K
  proof
    assume "map_of (level_table N 2) K = Some ?p"
    from level_operation_count [OF this] show False by simp
  qed
  then have a: "\<forall>N K. map_of (level_table N 2) K \<noteq> Some ?p" by simp
  show ?thesis
    by (intro conjI level_2_1_three level_2_1_nine level_2_2_nine e c d n a)
qed

text \<open>
  C1. With \<open>ignoreSumAndMul\<close> set, the operation loop meets \<open>+\<close> first and leaves through its
  \<open>break\<close>: no operation is attempted and the state is unchanged. So in the run with budget
  2 the composition (0, 1) never tries \<open>69 / (-6 + 9)\<close>, whose attempt alone would retain the
  complete term for 23, and level 2 has no entry for 23.
\<close>

theorem pruned_direction_attempts_nothing:
  "operation_loop N operations True LeftExpression RightExpression OperationList st = Inr st \<and>
   map_of (level_table 2 0) ''69'' = Some (Atom2 69) \<and>
   map_of (level_table 2 1) ''3'' = Some (Expression2 (Atom2 (- 6)) Plus (Atom2 9)) \<and>
   attempt 2 2 (Atom2 69) Over (Expression2 (Atom2 (- 6)) Plus (Atom2 9))
     \<lparr>current = [], knownNumbers = [''69'', ''-69''], floatCounter = 0\<rparr>
   = Inr \<lparr>current = [(''23'', Expression2 (Atom2 69) Over (Expression2 (Atom2 (- 6)) Plus (Atom2 9)))],
          knownNumbers = [''69'', ''-69'', ''23''], floatCounter = 0\<rparr> \<and>
   map_of (level_table 2 2) ''23'' = None"
proof -
  have a: "attempt 2 2 (Atom2 69) Over (Expression2 (Atom2 (- 6)) Plus (Atom2 9))
     \<lparr>current = [], knownNumbers = [''69'', ''-69''], floatCounter = 0\<rparr>
   = Inr \<lparr>current = [(''23'', Expression2 (Atom2 69) Over (Expression2 (Atom2 (- 6)) Plus (Atom2 9)))],
          knownNumbers = [''69'', ''-69'', ''23''], floatCounter = 0\<rparr>"
    by code_simp
  have z: "map_of (level_table 2 0) ''69'' = Some (Atom2 69)" by (simp add: level_2)
  show ?thesis
    by (intro conjI operation_loop_pruned z level_2_1_three a level_2_2_twenty_three)
qed

theorem settled_monotonicity_witness:
  "(1::nat) < 2 \<and> (2::nat) \<le> 2 \<and>
   map_of (level_table 2 1) ''3'' = Some (Expression2 (Atom2 (- 6)) Plus (Atom2 9)) \<and>
   is_complete (Expression2 (Atom2 (- 6)) Plus (Atom2 9)) \<and>
   expr_evaluate (Expression2 (Atom2 (- 6)) Plus (Atom2 9)) = Inr (Val (newExact 3)) \<and>
   Exact_display (newExact 3) \<noteq> FloatFlag \<and>
   map_of (level_table 2 2) ''3'' = None \<and>
   map_of (level_table 2 2) ''7'' =
     Some (Expression2 (Expression2 (Atom2 69) Plus (Atom2 (- 6))) Over (Atom2 9)) \<and>
   expr_evaluate (Expression2 (Expression2 (Atom2 69) Plus (Atom2 (- 6))) Over (Atom2 9))
     \<noteq> Inr (Val (newExact 3))"
proof -
  let ?t = "Expression2 (Atom2 (- 6)) Plus (Atom2 9)"
  from settled_monotonicity [of 2] obtain List known where
    r: "build_List 2 = Inr (List, known)" and len: "length List = 3"
    and A: "\<forall>k k' K t e. k < k' \<and> k' \<le> 2 \<and> map_of (List ! k) K = Some t \<and> is_complete t \<and>
          expr_evaluate t = Inr (Val e) \<and> Exact_display e \<noteq> FloatFlag \<longrightarrow>
        map_of (List ! k') K = None \<and>
        (\<forall>K' t'. map_of (List ! k') K' = Some t' \<longrightarrow> expr_evaluate t' \<noteq> Inr (Val e))"
    by auto
  have l1: "level_table 2 1 = List ! 1" and l2: "level_table 2 2 = List ! 2"
    using level_eq [OF r] len by simp_all
  have m: "map_of (List ! 1) ''3'' = Some ?t" using level_2_1_three by (simp only: l1)
  have c: "is_complete ?t" by code_simp
  have e: "expr_evaluate ?t = Inr (Val (newExact 3))" by code_simp
  have d: "Exact_display (newExact 3) \<noteq> FloatFlag" by code_simp
  from A [THEN spec, THEN spec, THEN spec, THEN spec, THEN spec,
      of 1 2 "''3''" ?t "newExact 3"] m c e d have "map_of (List ! 2) ''3'' = None \<and>
        (\<forall>K' t'. map_of (List ! 2) K' = Some t' \<longrightarrow> expr_evaluate t' \<noteq> Inr (Val (newExact 3)))"
    by simp
  then have n: "map_of (List ! 2) ''3'' = None"
    and a: "\<forall>K' t'. map_of (List ! 2) K' = Some t' \<longrightarrow> expr_evaluate t' \<noteq> Inr (Val (newExact 3))"
    by simp_all
  have s: "map_of (List ! 2) ''7'' =
     Some (Expression2 (Expression2 (Atom2 69) Plus (Atom2 (- 6))) Over (Atom2 9))"
    using level_2_2_seven by (simp only: l2)
  from a s have "expr_evaluate (Expression2 (Expression2 (Atom2 69) Plus (Atom2 (- 6))) Over (Atom2 9))
     \<noteq> Inr (Val (newExact 3))"
    by blast
  then show ?thesis unfolding l1 l2 using m c e d n s by simp
qed

theorem sixty_nine_never_in_output_witness:
  "(0::nat) < 2 \<and> (0::nat) < 1 \<and> (1::nat) \<le> 2 \<and>
   map_of (level_table 2 1) ''3'' = Some (Expression2 (Atom2 (- 6)) Plus (Atom2 9)) \<and>
   expr_evaluate (Expression2 (Atom2 (- 6)) Plus (Atom2 9)) \<noteq> Inr (Val (newExact 69)) \<and>
   map_of (level_table 2 1) ''69'' = None \<and> map_of (level_table 2 2) ''-69'' = None \<and>
   map_of (project (level_table 2 0)) ''69'' = None \<and>
   map_of (project (level_table 2 2)) ''-69'' = None \<and>
   (\<exists>known. getExpression_version3 2 =
      Inr (Result [project (level_table 2 0), project (level_table 2 1), project (level_table 2 2)]
        known))"
proof -
  let ?t = "Expression2 (Atom2 (- 6)) Plus (Atom2 9)"
  have pos: "(0::nat) < 2" by simp
  from sixty_nine_never_in_output [OF pos] obtain List known where
    r: "build_List 2 = Inr (List, known)" and len: "length List = 3"
    and C: "getExpression_version3 2 = Inr (Result (map project List) known)"
    and A: "\<forall>k K t. 0 < k \<and> k \<le> 2 \<and> map_of (List ! k) K = Some t \<longrightarrow>
        K \<noteq> ''69'' \<and> K \<noteq> ''-69'' \<and>
        expr_evaluate t \<noteq> Inr (Val (newExact 69)) \<and>
        expr_evaluate t \<noteq> Inr (Val (newExact (- 69)))"
    and B: "\<forall>k \<le> 2. map_of (map project List ! k) ''69'' = None \<and>
              map_of (map project List ! k) ''-69'' = None"
    by auto
  have l0: "level_table 2 0 = List ! 0" and l1: "level_table 2 1 = List ! 1"
    and l2: "level_table 2 2 = List ! 2"
    using level_eq [OF r] len by simp_all
  from len obtain a b c where abc: "List = [a, b, c]"
    by (auto simp: length_Suc_conv numeral_3_eq_3)
  have L: "map project List = [project (level_table 2 0), project (level_table 2 1),
      project (level_table 2 2)]"
    unfolding l0 l1 l2 by (simp add: abc)
  have m: "map_of (List ! 1) ''3'' = Some ?t" using level_2_1_three by (simp only: l1)
  have e: "expr_evaluate ?t \<noteq> Inr (Val (newExact 69))"
    using A [rule_format, of 1 "''3''" ?t] m by simp
  have k1: "map_of (List ! 1) ''69'' = None"
  proof (cases "map_of (List ! 1) ''69''")
    case (Some t)
    then have "''69'' \<noteq> ''69''" using A [rule_format, of 1 "''69''" t] by simp
    then show ?thesis by simp
  qed simp
  have k2: "map_of (List ! 2) ''-69'' = None"
  proof (cases "map_of (List ! 2) ''-69''")
    case (Some t)
    then have "''-69'' \<noteq> ''-69''" using A [rule_format, of 2 "''-69''" t] by simp
    then show ?thesis by simp
  qed simp
  from B [rule_format, of 0] have p0: "map_of (project (List ! 0)) ''69'' = None"
    by (simp add: abc)
  from B [rule_format, of 2] have p2: "map_of (project (List ! 2)) ''-69'' = None"
    by (simp add: abc)
  have "\<exists>known. getExpression_version3 2 =
      Inr (Result [project (level_table 2 0), project (level_table 2 1), project (level_table 2 2)]
        known)"
    using C unfolding L by (rule exI)
  then show ?thesis unfolding l0 l1 l2 using m e k1 k2 p0 p2 by simp
qed

end
